theory Spec2Isabelle
  imports Complex_Main "HOL-Library.Word" "HOL-Library.AList"
begin

section \<open>Data model of script.js\<close>

text \<open>
  The server keeps its whole state in module-level variables: \<^verbatim>\<open>users\<close>,
  \<^verbatim>\<open>activeGames\<close>, \<^verbatim>\<open>gameHistory\<close>, \<^verbatim>\<open>onlineUsers\<close> and \<^verbatim>\<open>gameState\<close>.
  Every handler and timer callback runs to completion on the single JavaScript thread, so
  each one is a function from the state to the next state. A JavaScript number is modelled
  as the real it denotes, and every arithmetic operation returns its exact result rounded to
  the nearest double (\<open>fl\<close> below). Timestamps of \<^verbatim>\<open>Date.now()\<close> are integers
  (milliseconds), and every source of randomness or time is a parameter.
\<close>

datatype jsval = JNum real | JStr string | JBool bool | JNull

text \<open>A player object, as built by the place-bet handler.\<close>

record player =
  p_id :: string
  p_username :: string
  bet :: real
  cashOutMultiplier :: "real option"
  cashedOut :: bool
  won :: bool
  profit :: real
  joinedAt :: int

text \<open>A user object, as built by the register handler.\<close>

record user =
  u_id :: string
  u_username :: string
  password :: string
  balance :: real
  gamesPlayed :: nat
  gamesWon :: nat
  totalProfit :: real
  createdAt :: int

text \<open>
  A game object. The type parameter is the type of its \<^verbatim>\<open>players\<close> property: the list of
  players while the game lives in \<^verbatim>\<open>activeGames\<close>, their number in a history entry.
  \<^verbatim>\<open>endTime\<close> is absent until \<^verbatim>\<open>endGame\<close> sets it.
\<close>

record 'p game =
  g_id :: string
  isRunning :: bool
  multiplier :: real
  crashPoint :: real
  startTime :: int
  players :: 'p
  history :: "real list"
  winner :: "string option"
  endTime :: "int option"

text \<open>
  The messages sent over socket.io, one constructor per event name with its payload in the
  order of the source. \<^verbatim>\<open>game_state\<close> is the only message sent to a single socket (its
  first argument); all others go to every client. A number formatted by \<^verbatim>\<open>toFixed(d)\<close> is
  carried as the integer that the digits of the string spell.
\<close>

datatype event =
    game_start string real int
  | game_update string int int
  | game_end string int real "player list" nat
  | new_bet string string real "real option"
  | cash_out string string int real
  | game_state string "player list game"
  | online_update nat "jsval option list"

datatype error =
    MissingCredentials
  | UserExists
  | UserNotFound
  | GameNotActive
  | InsufficientFunds
  | BelowMinimumStake
  | OperationImpossible
  | NoOpenBet

text \<open>
  \<^verbatim>\<open>activeGames\<close> and \<^verbatim>\<open>onlineUsers\<close> are iterated in insertion order, so they are
  association lists; \<^verbatim>\<open>users\<close> is only looked up by key. The variable \<^verbatim>\<open>gameState\<close>
  refers to the object that is also stored as \<^verbatim>\<open>activeGames[gameId]\<close>; it is modelled as
  that key, and as \<open>None\<close> for the initial placeholder object, which is not running.
\<close>

record server =
  users :: "string \<rightharpoonup> user"
  activeGames :: "(string \<times> player list game) list"
  gameHistory :: "nat game list"
  onlineUsers :: "(string \<times> (string \<times> jsval) list) list"
  gameState :: "string option"
  emitted :: "event list"

definition initial :: server where
  "initial = \<lparr>users = Map.empty, activeGames = [], gameHistory = [], onlineUsers = [],
              gameState = None, emitted = []\<rparr>"

section \<open>Double arithmetic\<close>

text \<open>
  \<open>fl x\<close> is the double nearest to the real \<open>x\<close>, the one with the even significand at a
  tie: with \<open>2^k \<le> |x| < 2^(k+1)\<close>, the multiple of \<open>2^(k-52)\<close> nearest to \<open>x\<close>. The
  exponent range is not bounded: the model has no infinities and no subnormal numbers, which
  the program meets only beyond \<open>2^1023\<close> and below \<open>2^-1022\<close>.
  \<open>log2n n\<close> is the integer part of the binary logarithm of \<open>n\<close>, and \<open>ilog2 x\<close> that of a
  positive real.
\<close>

fun log2n :: "nat \<Rightarrow> nat" where
  "log2n n = (if n < 2 then 0 else Suc (log2n (n div 2)))"

declare log2n.simps [simp del]

definition ilog2 :: "real \<Rightarrow> int" where
  "ilog2 x =
     (if 1 \<le> x then int (log2n (nat \<lfloor>x\<rfloor>))
      else if nat \<lceil>1 / x\<rceil> \<le> 1 then 0
      else - int (Suc (log2n (nat \<lceil>1 / x\<rceil> - 1))))"

definition pow2 :: "int \<Rightarrow> real" where
  "pow2 e = (if 0 \<le> e then 2 ^ nat e else 1 / 2 ^ nat (- e))"

definition roundEven :: "real \<Rightarrow> int" where
  "roundEven x =
     (let n = \<lfloor>x\<rfloor>; r = x - real_of_int n
      in if r < 1 / 2 then n else if 1 / 2 < r then n + 1 else if even n then n else n + 1)"

definition fl :: "real \<Rightarrow> real" where
  "fl x = (if x = 0 then 0
           else let e = ilog2 \<bar>x\<bar> - 52 in real_of_int (roundEven (x / pow2 e)) * pow2 e)"

section \<open>Helpers for JavaScript semantics\<close>

text \<open>
  \<^verbatim>\<open>x.toFixed(d)\<close>, for the value \<open>x\<close> of the double: the integer \<open>n\<close> with \<open>n / 10^d\<close>
  nearest to \<open>x\<close>, the larger one at a tie, sign apart.
\<close>

definition toFixed :: "nat \<Rightarrow> real \<Rightarrow> int" where
  "toFixed d x = (if x < 0 then - \<lfloor>- x * 10 ^ d + 1 / 2\<rfloor> else \<lfloor>x * 10 ^ d + 1 / 2\<rfloor>)"

text \<open>Conversion of a possibly \<^verbatim>\<open>null\<close> number in arithmetic and comparison: \<^verbatim>\<open>null\<close> is 0.\<close>

definition toNumber :: "real option \<Rightarrow> real" where
  "toNumber v = (case v of None \<Rightarrow> 0 | Some x \<Rightarrow> x)"

text \<open>\<^verbatim>\<open>autoCashout || null\<close>: a missing or zero threshold becomes \<^verbatim>\<open>null\<close>.\<close>

definition orNull :: "real option \<Rightarrow> real option" where
  "orNull v = (case v of None \<Rightarrow> None | Some x \<Rightarrow> (if x = 0 then None else Some x))"

text \<open>Mutation of the object returned by \<^verbatim>\<open>Array.prototype.find\<close>: the first match.\<close>

fun update_first :: "('a \<Rightarrow> bool) \<Rightarrow> ('a \<Rightarrow> 'a) \<Rightarrow> 'a list \<Rightarrow> 'a list" where
  "update_first P f [] = []"
| "update_first P f (x # xs) = (if P x then f x # xs else x # update_first P f xs)"

section \<open>Crash point generation\<close>

text \<open>
  \<^verbatim>\<open>generateCrashPoint\<close>, with the four random bytes read as an unsigned 32-bit integer
  given as the argument, in exact arithmetic: the result is a whole number of hundredths.
  The number the program holds is the double nearest to it, \<open>fl (generateCrashPoint hw)\<close>:
  both operands of the first division are integers below \<open>2^39\<close>, the floor of their
  rounded quotient is their integer quotient, the division by 100 rounds once, and the
  bounds 1.01 and 100 are doubles themselves.
\<close>

definition generateCrashPoint :: "32 word \<Rightarrow> real" where
  "generateCrashPoint hw =
     (let e = 2 ^ 32;
          h = real (unat hw);
          crashPoint = real_of_int \<lfloor>(100 * e - h) / (e - h)\<rfloor> / 100
      in max 1.01 (min crashPoint 100))"

text \<open>The generator as section 4.1 of the specification words it, for comparison.\<close>

definition spec_draw :: "nat \<Rightarrow> real" where
  "spec_draw h =
     (let raw = real_of_int \<lfloor>(100 * 2 ^ 32 - real h) / (2 ^ 32 - real h)\<rfloor> / 100
      in if raw < 1.01 then 1.01 else if 100 < raw then 100 else raw)"

section \<open>Round lifecycle\<close>

definition currentGame :: "server \<Rightarrow> player list game option" where
  "currentGame s = (case gameState s of None \<Rightarrow> None | Some k \<Rightarrow> map_of (activeGames s) k)"

definition running :: "server \<Rightarrow> bool" where
  "running s = (case currentGame s of None \<Rightarrow> False | Some g \<Rightarrow> isRunning g)"

text \<open>
  \<^verbatim>\<open>startNewGame\<close>; the random game identifier, the random draw and the clock are
  arguments. The two timers it installs are the callbacks \<open>tick\<close> and \<open>endGame\<close> below.
\<close>

definition startNewGame :: "string \<Rightarrow> 32 word \<Rightarrow> int \<Rightarrow> server \<Rightarrow> server" where
  "startNewGame gameId hw now s =
     (if running s then s
      else
        let cp = fl (generateCrashPoint hw);
            g = \<lparr>g_id = gameId, isRunning = True, multiplier = 1, crashPoint = cp,
                 startTime = now, players = [], history = [], winner = None, endTime = None\<rparr>
        in s\<lparr>gameState := Some gameId,
              activeGames := AList.update gameId g (activeGames s),
              emitted := emitted s @ [game_start gameId cp now]\<rparr>)"

text \<open>The body of \<^verbatim>\<open>game.players.forEach\<close> in \<^verbatim>\<open>endGame\<close>; \<open>m\<close> is \<^verbatim>\<open>game.multiplier\<close>.\<close>

definition settle :: "real \<Rightarrow> player \<Rightarrow> player" where
  "settle m p =
     (if cashedOut p \<and> toNumber (cashOutMultiplier p) < m
      then p\<lparr>won := True, profit := fl (bet p * toNumber (cashOutMultiplier p))\<rparr>
      else if \<not> cashedOut p then p\<lparr>won := False, profit := - bet p\<rparr>
      else p)"

text \<open>The history entry \<^verbatim>\<open>{...game, players: game.players.length}\<close>.\<close>

definition summary :: "player list game \<Rightarrow> nat game" where
  "summary g = \<lparr>g_id = g_id g, isRunning = isRunning g, multiplier = multiplier g,
                crashPoint = crashPoint g, startTime = startTime g,
                players = length (players g), history = history g, winner = winner g,
                endTime = endTime g\<rparr>"

text \<open>\<^verbatim>\<open>gameHistory.push(entry)\<close> followed by the cut to the last 100 entries.\<close>

definition pushHistory :: "'a list \<Rightarrow> 'a \<Rightarrow> 'a list" where
  "pushHistory hist entry =
     (let hist' = hist @ [entry]
      in if 100 < length hist' then drop (length hist' - 100) hist' else hist')"

text \<open>
  \<^verbatim>\<open>endGame\<close>; the clock is an argument. The restart it schedules five seconds later is
  the call of \<^verbatim>\<open>startNewGame\<close> that follows in a run.
\<close>

definition endGame :: "string \<Rightarrow> int \<Rightarrow> server \<Rightarrow> server" where
  "endGame gameId now s =
     (case map_of (activeGames s) gameId of
        None \<Rightarrow> s
      | Some game \<Rightarrow>
          if \<not> isRunning game then s
          else
            let game' = game\<lparr>isRunning := False, endTime := Some now,
                             players := map (settle (multiplier game)) (players game)\<rparr>
            in s\<lparr>activeGames := AList.update gameId game' (activeGames s),
                  gameHistory := pushHistory (gameHistory s) (summary game'),
                  emitted := emitted s @
                    [game_end gameId (toFixed 2 (multiplier game')) (crashPoint game')
                       (players game') (length (filter won (players game')))]\<rparr>)"

text \<open>
  The interval callback of \<^verbatim>\<open>startNewGame\<close>, for the game identifier its closure holds.
  It reads and writes the object \<^verbatim>\<open>gameState\<close> refers to. Both clock reads of one
  callback (the tick's and the one in \<^verbatim>\<open>endGame\<close>) are taken to return \<open>now\<close>.
\<close>

definition tick :: "string \<Rightarrow> int \<Rightarrow> server \<Rightarrow> server" where
  "tick gameId now s =
     (case gameState s of
        None \<Rightarrow> s
      | Some k \<Rightarrow>
          (case map_of (activeGames s) k of
             None \<Rightarrow> s
           | Some gs \<Rightarrow>
               if \<not> isRunning gs then s
               else
                 let timeElapsed = fl (real_of_int (now - startTime gs) / 1000);
                     gs' = gs\<lparr>multiplier := fl (1 + fl (timeElapsed * fl 0.05))\<rparr>;
                     s' = s\<lparr>activeGames := AList.update k gs' (activeGames s)\<rparr>
                 in if crashPoint gs' \<le> multiplier gs' then endGame gameId now s'
                    else s'\<lparr>emitted := emitted s' @
                           [game_update gameId (toFixed 2 (multiplier gs'))
                              (toFixed 1 timeElapsed)]\<rparr>))"

text \<open>The 30 second timeout of \<^verbatim>\<open>startNewGame\<close>.\<close>

definition timeout :: "string \<Rightarrow> int \<Rightarrow> server \<Rightarrow> server" where
  "timeout gameId now s = (if running s then endGame gameId now s else s)"

section \<open>Request handlers\<close>

text \<open>
  Each handler returns the HTTP response (\<open>Inl\<close> an error, \<open>Inr\<close> the success payload)
  and the next state. An error response is sent before any assignment, so it comes with the
  state it was given.
\<close>

text \<open>\<^verbatim>\<open>POST /api/register\<close>; the random identifier and the clock are arguments.\<close>

definition register :: "string \<Rightarrow> string \<Rightarrow> string \<Rightarrow> int \<Rightarrow> server
    \<Rightarrow> (error + string \<times> string \<times> real) \<times> server" where
  "register username pw newId now s =
     (if username = [] \<or> pw = [] then (Inl MissingCredentials, s)
      else
        (case users s username of
           Some _ \<Rightarrow> (Inl UserExists, s)
         | None \<Rightarrow>
             let u = \<lparr>u_id = newId, u_username = username, password = pw, balance = 1000,
                      gamesPlayed = 0, gamesWon = 0, totalProfit = 0, createdAt = now\<rparr>
             in (Inr (u_id u, username, balance u), s\<lparr>users := (users s)(username \<mapsto> u)\<rparr>)))"

text \<open>
  \<^verbatim>\<open>POST /api/place-bet\<close>; the clock and the random bet token are arguments, and
  \<^verbatim>\<open>amount\<close> is a number. The success payload is the new balance and the token.
\<close>

definition placeBet :: "string \<Rightarrow> string \<Rightarrow> real \<Rightarrow> real option \<Rightarrow> int \<Rightarrow> string \<Rightarrow> server
    \<Rightarrow> (error + real \<times> string) \<times> server" where
  "placeBet username gameId amount autoCashout now betId s =
     (case users s username of
        None \<Rightarrow> (Inl UserNotFound, s)
      | Some u \<Rightarrow>
          (case map_of (activeGames s) gameId of
             None \<Rightarrow> (Inl GameNotActive, s)
           | Some game \<Rightarrow>
               if \<not> isRunning game then (Inl GameNotActive, s)
               else if balance u < amount then (Inl InsufficientFunds, s)
               else if amount < 10 then (Inl BelowMinimumStake, s)
               else
                 let u' = u\<lparr>balance := fl (balance u - amount),
                            gamesPlayed := gamesPlayed u + 1\<rparr>;
                     p = \<lparr>p_id = u_id u', p_username = u_username u', bet = amount,
                          cashOutMultiplier = orNull autoCashout, cashedOut = False,
                          won = False, profit = 0, joinedAt = now\<rparr>;
                     game' = game\<lparr>players := players game @ [p]\<rparr>
                 in (Inr (balance u', betId),
                     s\<lparr>users := (users s)(username \<mapsto> u'),
                       activeGames := AList.update gameId game' (activeGames s),
                       emitted := emitted s @
                         [new_bet gameId (u_username u') amount autoCashout]\<rparr>)))"

text \<open>The test of \<^verbatim>\<open>game.players.find\<close> in the cash-out handler.\<close>

definition openBetOf :: "string \<Rightarrow> player \<Rightarrow> bool" where
  "openBetOf username p = (p_username p = username \<and> \<not> cashedOut p)"

text \<open>
  The four assignments of the cash-out handler to the player object it found; \<open>m\<close> is
  \<^verbatim>\<open>game.multiplier\<close> and \<open>w\<close> is \<^verbatim>\<open>winAmount\<close>.
\<close>

definition paidBet :: "real \<Rightarrow> real \<Rightarrow> player \<Rightarrow> player" where
  "paidBet m w q = q\<lparr>cashedOut := True, cashOutMultiplier := Some m, won := True,
                      profit := fl (w - bet q)\<rparr>"

text \<open>
  \<^verbatim>\<open>POST /api/cash-out\<close>. The success payload is the multiplier as formatted by
  \<^verbatim>\<open>toFixed(2)\<close>, the amount won and the new balance.
\<close>

definition cashOut :: "string \<Rightarrow> string \<Rightarrow> server \<Rightarrow> (error + int \<times> real \<times> real) \<times> server" where
  "cashOut username gameId s =
     (case users s username of
        None \<Rightarrow> (Inl OperationImpossible, s)
      | Some u \<Rightarrow>
          (case map_of (activeGames s) gameId of
             None \<Rightarrow> (Inl OperationImpossible, s)
           | Some game \<Rightarrow>
               if \<not> isRunning game then (Inl OperationImpossible, s)
               else
                 (case find (openBetOf username) (players game) of
                    None \<Rightarrow> (Inl NoOpenBet, s)
                  | Some p \<Rightarrow>
                      let winAmount = fl (bet p * multiplier game);
                          u' = u\<lparr>balance := fl (balance u + winAmount),
                                 totalProfit := fl (totalProfit u + fl (winAmount - bet p)),
                                 gamesWon := (if bet p < winAmount then gamesWon u + 1
                                              else gamesWon u)\<rparr>;
                          game' = game\<lparr>players :=
                                    update_first (openBetOf username)
                                      (paidBet (multiplier game) winAmount) (players game)\<rparr>
                      in (Inr (toFixed 2 (multiplier game), winAmount, balance u'),
                          s\<lparr>users := (users s)(username \<mapsto> u'),
                            activeGames := AList.update gameId game' (activeGames s),
                            emitted := emitted s @
                              [cash_out gameId username (toFixed 2 (multiplier game))
                                 winAmount]\<rparr>))))"

text \<open>The own properties of a user object, in the order the register handler writes them.\<close>

definition userProps :: "user \<Rightarrow> (string \<times> jsval) list" where
  "userProps u =
     [(''id'', JStr (u_id u)), (''username'', JStr (u_username u)),
      (''password'', JStr (password u)), (''balance'', JNum (balance u)),
      (''gamesPlayed'', JNum (real (gamesPlayed u))), (''gamesWon'', JNum (real (gamesWon u))),
      (''totalProfit'', JNum (totalProfit u)), (''createdAt'', JNum (real_of_int (createdAt u)))]"

text \<open>The rest pattern \<^verbatim>\<open>const { k, ...rest } = obj\<close>: every own property but \<open>k\<close>.\<close>

definition restWithout :: "string \<Rightarrow> (string \<times> jsval) list \<Rightarrow> (string \<times> jsval) list" where
  "restWithout k props = filter (\<lambda>kv. fst kv \<noteq> k) props"

text \<open>\<^verbatim>\<open>GET /api/user/:username\<close>.\<close>

definition getUser :: "string \<Rightarrow> server \<Rightarrow> error + (string \<times> jsval) list" where
  "getUser username s =
     (case users s username of
        None \<Rightarrow> Inl UserNotFound
      | Some u \<Rightarrow> Inr (restWithout ''password'' (userProps u)))"

text \<open>
  The \<^verbatim>\<open>user_join\<close> handler of a connected socket. \<open>userData\<close> is the object the client
  sent, as its list of properties.
\<close>

definition user_join :: "string \<Rightarrow> (string \<times> jsval) list \<Rightarrow> int \<Rightarrow> server \<Rightarrow> server" where
  "user_join socketId userData now s =
     (let entry = AList.update ''joinedAt'' (JNum (real_of_int now))
                    (AList.update ''socketId'' (JStr socketId) userData);
          s1 = s\<lparr>onlineUsers := AList.update socketId entry (onlineUsers s)\<rparr>;
          s2 = (case find isRunning (map snd (activeGames s1)) of
                  None \<Rightarrow> s1
                | Some g \<Rightarrow> s1\<lparr>emitted := emitted s1 @ [game_state socketId g]\<rparr>)
      in s2\<lparr>emitted := emitted s2 @
             [online_update (length (onlineUsers s2))
                (map (\<lambda>u. map_of (snd u) ''username'') (onlineUsers s2))]\<rparr>)"

text \<open>Projections used to state properties of a round.\<close>

definition playersOf :: "server \<Rightarrow> string \<Rightarrow> player list" where
  "playersOf s gameId = (case map_of (activeGames s) gameId of None \<Rightarrow> [] | Some g \<Rightarrow> players g)"

definition balanceOf :: "server \<Rightarrow> string \<Rightarrow> real option" where
  "balanceOf s username = map_option balance (users s username)"


text \<open>The crash point a message carries, if it carries one.\<close>

fun crashPointIn :: "event \<Rightarrow> real option" where
  "crashPointIn (game_start gameId cp t) = Some cp"
| "crashPointIn (game_end gameId m cp ps n) = Some cp"
| "crashPointIn (game_state socketId g) = Some (crashPoint g)"
| "crashPointIn ev = None"

text \<open>The identifiers of the rounds whose \<^verbatim>\<open>game_end\<close> was sent, oldest first.\<close>

fun ended :: "event list \<Rightarrow> string list" where
  "ended [] = []"
| "ended (game_end gameId m cp ps n # evs) = gameId # ended evs"
| "ended (ev # evs) = ended evs"

section \<open>The server as a transition system\<close>

text \<open>
  Everything that changes the state or sends a message: the three timer callbacks and the
  handlers above, each with the values it reads from the request, the clock and the random
  source. A run of the server is a list of such actions applied to \<open>initial\<close>.
\<close>

datatype action =
    StartNewGame string "32 word" int
  | Tick string int
  | Timeout string int
  | Register string string string int
  | PlaceBet string string real "real option" int string
  | CashOut string string
  | UserJoin string "(string \<times> jsval) list" int

fun step :: "server \<Rightarrow> action \<Rightarrow> server" where
  "step s (StartNewGame gameId hw now) = startNewGame gameId hw now s"
| "step s (Tick gameId now) = tick gameId now s"
| "step s (Timeout gameId now) = timeout gameId now s"
| "step s (Register username pw newId now) = snd (register username pw newId now s)"
| "step s (PlaceBet username gameId amount autoCashout now betId) =
     snd (placeBet username gameId amount autoCashout now betId s)"
| "step s (CashOut username gameId) = snd (cashOut username gameId s)"
| "step s (UserJoin socketId userData now) = user_join socketId userData now s"

definition run :: "action list \<Rightarrow> server" where
  "run acts = foldl step initial acts"

text \<open>
  The rounds a run has completed, oldest first, read off the states alone: a round is
  completed by the step before which its game object is running and after which it is not.
\<close>

definition runningIn :: "server \<Rightarrow> string \<Rightarrow> bool" where
  "runningIn s k = (case map_of (activeGames s) k of None \<Rightarrow> False | Some g \<Rightarrow> isRunning g)"

definition endedBy :: "server \<Rightarrow> server \<Rightarrow> string list" where
  "endedBy s s' = filter (\<lambda>k. runningIn s k \<and> \<not> runningIn s' k) (map fst (activeGames s))"

fun completed :: "server \<Rightarrow> action list \<Rightarrow> string list" where
  "completed s [] = []"
| "completed s (a # as) = endedBy s (step s a) @ completed (step s a) as"

text \<open>The last 100 elements of a list.\<close>

definition last100 :: "'a list \<Rightarrow> 'a list" where
  "last100 xs = drop (length xs - 100) xs"

text \<open>
  The games are stored under their own identifiers, each identifier once.
\<close>

definition keysInv :: "server \<Rightarrow> bool" where
  "keysInv s \<longleftrightarrow>
     distinct (map fst (activeGames s))
     \<and> (\<forall>k g. map_of (activeGames s) k = Some g \<longrightarrow> g_id g = k)"

section \<open>Concrete runs\<close>

text \<open>Two draws: the first gives the crash point 2.00, the second 5.00.\<close>

definition draw200 :: "32 word" where
  "draw200 = 2164663517"

definition draw500 :: "32 word" where
  "draw500 = 3443704778"

text \<open>One registered account, and a round with crash point 2.00 started at time 1000.\<close>

definition afterRegister :: server where
  "afterRegister = snd (register ''ann'' ''pw'' ''u1'' 0 initial)"

definition round200 :: server where
  "round200 = startNewGame ''g1'' draw200 1000 afterRegister"

text \<open>The account stakes 100, and then 100 again, in that round.\<close>

definition oneBet :: server where
  "oneBet = snd (placeBet ''ann'' ''g1'' 100 None 1000 ''b1'' round200)"

definition twoBets :: server where
  "twoBets = snd (placeBet ''ann'' ''g1'' 100 None 1200 ''b2'' oneBet)"

text \<open>A single stake of 100 with the auto-cash-out threshold 1.80.\<close>

definition autoBet :: server where
  "autoBet = snd (placeBet ''ann'' ''g1'' 100 (Some 1.8) 1000 ''b1'' round200)"

text \<open>A round with crash point 5.00 started at time 1000.\<close>

definition round500 :: server where
  "round500 = startNewGame ''g5'' draw500 1000 afterRegister"


text \<open>
  With one stake placed, the tick at time 11000 sets the multiplier to 1.50 and the account
  cashes out.
\<close>

definition paidOut :: server where
  "paidOut = snd (cashOut ''ann'' ''g1'' (tick ''g1'' 11000 oneBet))"

text \<open>The same with two stakes placed: the tick, and the first of two cash-out requests.\<close>

definition twoBetsAt150 :: server where
  "twoBetsAt150 = tick ''g1'' 11000 twoBets"

definition firstPaid :: server where
  "firstPaid = snd (cashOut ''ann'' ''g1'' twoBetsAt150)"

definition secondPaid :: server where
  "secondPaid = snd (cashOut ''ann'' ''g1'' firstPaid)"

text \<open>A client that joins as an observer.\<close>

definition bob :: "(string \<times> jsval) list" where
  "bob = [(''username'', JStr ''bob'')]"

text \<open>Two more draws: they give the crash points 1.01 and 1.61.\<close>

definition draw101 :: "32 word" where
  "draw101 = 0"

definition draw161 :: "32 word" where
  "draw161 = 1637456282"

definition round101 :: server where
  "round101 = startNewGame ''g0'' draw101 1000 afterRegister"

definition round161 :: server where
  "round161 = startNewGame ''g6'' draw161 1000 afterRegister"

text \<open>
  A run of whole rounds: each one is started and then ended by its timeout.
\<close>

definition rounds :: "string list \<Rightarrow> action list" where
  "rounds ks = concat (map (\<lambda>k. [StartNewGame k draw500 1000, Timeout k 31000]) ks)"

definition names105 :: "string list" where
  "names105 = map (\<lambda>n. replicate (Suc n) CHR ''g'') [0..<105]"

section \<open>Properties of the rounding\<close>

text \<open>
  \<open>ilog2\<close> is the binary exponent of a positive real; \<open>fl x\<close> differs from \<open>x\<close> by at
  most half a unit in the last of 53 places, has itself a significand of 53 bits, and is
  \<open>x\<close> when \<open>x\<close> has one. With the choice of the even significand at a tie in
  \<open>roundEven\<close>, this is rounding to nearest, ties to even.
\<close>

lemma log2n_bounds: "0 < n \<Longrightarrow> 2 ^ log2n n \<le> n \<and> n < 2 ^ Suc (log2n n)"
proof (induction n rule: log2n.induct)
  case (1 n)
  show ?case
  proof (cases "n < 2")
    case True
    with "1.prems" have "n = 1" by simp
    then show ?thesis by (simp add: log2n.simps)
  next
    case False
    then have "0 < n div 2" by simp
    with "1.IH" False have ih: "2 ^ log2n (n div 2) \<le> n div 2"
      "n div 2 < 2 ^ Suc (log2n (n div 2))" by simp_all
    have l: "log2n n = Suc (log2n (n div 2))" using False by (subst log2n.simps) simp
    from ih(1) have "2 * 2 ^ log2n (n div 2) \<le> 2 * (n div 2)" by simp
    also have "\<dots> \<le> n" by simp
    finally have a: "2 ^ log2n n \<le> n" by (simp add: l)
    from ih(2) have "Suc (n div 2) \<le> 2 ^ Suc (log2n (n div 2))" by simp
    then have "2 * Suc (n div 2) \<le> 2 * 2 ^ Suc (log2n (n div 2))" by simp
    moreover have "n < 2 * Suc (n div 2)" by simp
    ultimately have b: "n < 2 ^ Suc (log2n n)" by (simp add: l)
    from a b show ?thesis ..
  qed
qed

lemma pow2_Suc: "pow2 (e + 1) = 2 * pow2 e"
proof (cases "0 \<le> e")
  case True
  then show ?thesis by (simp add: pow2_def nat_add_distrib)
next
  case False
  then have "nat (- e) = Suc (nat (- (e + 1)))" by simp
  with False show ?thesis by (simp add: pow2_def)
qed

lemma pow2_pos: "0 < pow2 e"
  by (simp add: pow2_def)

lemma ilog2_bounds:
  assumes "0 < x"
  shows "pow2 (ilog2 x) \<le> x \<and> x < pow2 (ilog2 x + 1)"
proof (cases "1 \<le> x")
  case True
  define n where "n = nat \<lfloor>x\<rfloor>"
  from True have n: "0 < n" "real n \<le> x" "x < real n + 1"
    by (simp_all add: n_def)
  from log2n_bounds [OF n(1)] have b: "2 ^ log2n n \<le> n" "Suc n \<le> 2 ^ Suc (log2n n)" by simp_all
  have i: "ilog2 x = int (log2n n)" using True by (simp add: ilog2_def n_def)
  have "pow2 (ilog2 x) = 2 ^ log2n n" by (simp add: i pow2_def)
  also have "\<dots> \<le> real n" using b(1) by (metis of_nat_le_iff of_nat_numeral of_nat_power)
  finally have lo: "pow2 (ilog2 x) \<le> x" using n(2) by simp
  have "x < real (Suc n)" using n(3) by simp
  also have "\<dots> \<le> 2 ^ Suc (log2n n)" using b(2) by (metis of_nat_le_iff of_nat_numeral of_nat_power)
  also have "\<dots> = pow2 (ilog2 x + 1)" by (simp add: i pow2_Suc) (simp add: pow2_def)
  finally show ?thesis using lo by simp
next
  case False
  with assms have x: "0 < x" "x < 1" by simp_all
  define c where "c = nat \<lceil>1 / x\<rceil>"
  have inv: "1 < 1 / x" using x by simp
  then have c2: "2 \<le> c" unfolding c_def by linarith
  have cu: "1 / x \<le> real c" unfolding c_def using inv by linarith
  have cl: "real c - 1 < 1 / x" unfolding c_def using inv by linarith
  define j where "j = log2n (c - 1)"
  from c2 have "0 < c - 1" by simp
  from log2n_bounds [OF this] have b: "2 ^ j \<le> c - 1" "c - 1 < 2 ^ Suc j" by (simp_all add: j_def)
  have i: "ilog2 x = - int (Suc j)" using False c2 by (simp add: ilog2_def c_def [symmetric] j_def)
  have "nat (int j + 1) = Suc j" by simp
  then have p: "pow2 (ilog2 x) = 1 / 2 ^ Suc j" by (simp add: i pow2_def)
  have p1: "pow2 (ilog2 x + 1) = 1 / 2 ^ j" using pow2_Suc [of "ilog2 x"] p by simp
  from b(2) c2 have "c \<le> 2 ^ Suc j" by simp
  then have "real c \<le> 2 ^ Suc j" by (metis of_nat_le_iff of_nat_numeral of_nat_power)
  with cu have "1 / x \<le> 2 ^ Suc j" by simp
  then have lo: "1 / 2 ^ Suc j \<le> x" using x(1)
    by (simp add: field_simps)
  from b(1) c2 have "2 ^ j + 1 \<le> c" by simp
  then have "real (2 ^ j + 1) \<le> real c" by (simp only: of_nat_le_iff)
  then have "2 ^ j \<le> real c - 1" by simp
  with cl have "2 ^ j < 1 / x" by simp
  then have hi: "x < 1 / 2 ^ j" using x(1) by (simp add: field_simps)
  from lo hi show ?thesis by (simp add: p p1)
qed

lemma roundEven_error: "\<bar>real_of_int (roundEven x) - x\<bar> \<le> 1 / 2"
  unfolding roundEven_def Let_def by (auto simp: abs_le_iff)

lemma fl_error:
  assumes "x \<noteq> 0"
  shows "\<bar>fl x - x\<bar> \<le> pow2 (ilog2 \<bar>x\<bar> - 53)"
proof -
  define e where "e = ilog2 \<bar>x\<bar> - 52"
  have f: "fl x = real_of_int (roundEven (x / pow2 e)) * pow2 e"
    using assms by (simp add: fl_def Let_def e_def)
  have "fl x - x = (real_of_int (roundEven (x / pow2 e)) - x / pow2 e) * pow2 e"
    using pow2_pos [of e] by (simp add: f field_simps)
  then have "\<bar>fl x - x\<bar> = \<bar>real_of_int (roundEven (x / pow2 e)) - x / pow2 e\<bar> * pow2 e"
    using pow2_pos [of e] by (simp add: abs_mult)
  also have "\<dots> \<le> 1 / 2 * pow2 e"
    using roundEven_error [of "x / pow2 e"] pow2_pos [of e] by (simp add: mult_right_mono)
  also have "\<dots> = pow2 (ilog2 \<bar>x\<bar> - 53)"
    using pow2_Suc [of "ilog2 \<bar>x\<bar> - 53"] by (simp add: e_def)
  finally show ?thesis .
qed


lemma pow2_add: "pow2 (e + int k) = 2 ^ k * pow2 e"
proof (induction k)
  case 0
  show ?case by simp
next
  case (Suc k)
  have "e + int (Suc k) = (e + int k) + 1" by simp
  then have "pow2 (e + int (Suc k)) = 2 * pow2 (e + int k)" by (simp only: pow2_Suc)
  then show ?case by (simp add: Suc.IH)
qed

lemma pow2_mono:
  assumes "a \<le> b"
  shows "pow2 a \<le> pow2 b"
proof -
  from pow2_add [of a "nat (b - a)"] assms have "pow2 b = 2 ^ nat (b - a) * pow2 a" by simp
  moreover have "(1::real) \<le> 2 ^ nat (b - a)" by simp
  ultimately show ?thesis
    using pow2_pos [of a] by (simp add: mult_le_cancel_right2)
qed

lemma ilog2_unique:
  assumes "pow2 k \<le> x" and "x < pow2 (k + 1)"
  shows "ilog2 x = k"
proof -
  have x: "0 < x" using assms(1) pow2_pos [of k] by linarith
  note b = ilog2_bounds [OF x]
  have "\<not> ilog2 x < k"
  proof
    assume "ilog2 x < k"
    then have "pow2 (ilog2 x + 1) \<le> pow2 k" by (intro pow2_mono) simp
    with b assms(1) show False by linarith
  qed
  moreover have "\<not> k < ilog2 x"
  proof
    assume "k < ilog2 x"
    then have "pow2 (k + 1) \<le> pow2 (ilog2 x)" by (intro pow2_mono) simp
    with b assms(2) show False by linarith
  qed
  ultimately show ?thesis by simp
qed

lemma roundEven_int: "roundEven (real_of_int n) = n"
  by (simp add: roundEven_def)

text \<open>A number with a significand of 53 bits is its own rounding.\<close>

lemma fl_double:
  assumes "2 ^ 52 \<le> \<bar>n\<bar>" and "\<bar>n\<bar> < 2 ^ 53"
  shows "fl (real_of_int n * pow2 e) = real_of_int n * pow2 e"
proof -
  let ?x = "real_of_int n * pow2 e"
  have p52: "pow2 (52 + e) = 2 ^ 52 * pow2 e"
    using pow2_add [of e 52] by (simp add: add.commute)
  have p53: "pow2 (52 + e + 1) = 2 ^ 53 * pow2 e"
    using pow2_Suc [of "52 + e"] p52 by simp
  have ax: "\<bar>?x\<bar> = real_of_int \<bar>n\<bar> * pow2 e"
    using pow2_pos [of e] by (simp add: abs_mult)
  have "real_of_int (2 ^ 52) \<le> real_of_int \<bar>n\<bar>" using assms(1) by (simp only: of_int_le_iff)
  then have "(2::real) ^ 52 \<le> real_of_int \<bar>n\<bar>" by simp
  then have lo: "pow2 (52 + e) \<le> \<bar>?x\<bar>"
    unfolding ax p52 using pow2_pos [of e] by (simp add: mult_right_mono)
  have "real_of_int \<bar>n\<bar> < real_of_int (2 ^ 53)" using assms(2) by (simp only: of_int_less_iff)
  then have "real_of_int \<bar>n\<bar> < 2 ^ 53" by simp
  then have hi: "\<bar>?x\<bar> < pow2 (52 + e + 1)"
    unfolding ax p53 using pow2_pos [of e] by (simp add: mult_strict_right_mono)
  have i: "ilog2 \<bar>?x\<bar> = 52 + e" using lo hi by (rule ilog2_unique)
  have nz: "?x \<noteq> 0" using assms(1) pow2_pos [of e] by auto
  have d: "?x / pow2 e = real_of_int n" using pow2_pos [of e] by simp
  have "fl ?x = real_of_int (roundEven (?x / pow2 (ilog2 \<bar>?x\<bar> - 52)))
      * pow2 (ilog2 \<bar>?x\<bar> - 52)"
    using nz by (simp only: fl_def Let_def if_False)
  also have "\<dots> = ?x" by (simp only: i add_diff_cancel_left' d roundEven_int)
  finally show ?thesis .
qed


text \<open>
  The rounding of a nonzero number has a significand of 53 bits (or is the next power of two).
\<close>

lemma fl_significand:
  assumes "x \<noteq> 0"
  shows "\<exists>n. fl x = real_of_int n * pow2 (ilog2 \<bar>x\<bar> - 52) \<and> 2 ^ 52 \<le> \<bar>n\<bar> \<and> \<bar>n\<bar> \<le> 2 ^ 53"
proof -
  define e where "e = ilog2 \<bar>x\<bar> - 52"
  define y where "y = x / pow2 e"
  define n where "n = roundEven y"
  have f: "fl x = real_of_int n * pow2 e"
    using assms by (simp add: fl_def Let_def e_def y_def n_def)
  have ax: "0 < \<bar>x\<bar>" using assms by simp
  note b = ilog2_bounds [OF ax]
  have p: "pow2 (ilog2 \<bar>x\<bar>) = 2 ^ 52 * pow2 e"
    using pow2_add [of e 52] by (simp add: e_def)
  have p1: "pow2 (ilog2 \<bar>x\<bar> + 1) = 2 ^ 53 * pow2 e"
    using pow2_Suc [of "ilog2 \<bar>x\<bar>"] p by simp
  have ay: "\<bar>y\<bar> = \<bar>x\<bar> / pow2 e" using pow2_pos [of e] by (simp add: y_def)
  have lo: "2 ^ 52 \<le> \<bar>y\<bar>"
    using b p pow2_pos [of e] by (simp add: ay pos_le_divide_eq)
  have hi: "\<bar>y\<bar> < 2 ^ 53"
    using b p1 pow2_pos [of e] by (simp add: ay pos_divide_less_eq)
  have r: "\<bar>real_of_int n - y\<bar> \<le> 1 / 2" unfolding n_def by (rule roundEven_error)
  have t1: "\<bar>y\<bar> \<le> \<bar>real_of_int n\<bar> + \<bar>real_of_int n - y\<bar>" by arith
  have t2: "\<bar>real_of_int n\<bar> \<le> \<bar>y\<bar> + \<bar>real_of_int n - y\<bar>" by arith
  have an: "real_of_int \<bar>n\<bar> = \<bar>real_of_int n\<bar>" by simp
  have "(2::real) ^ 52 - 1 / 2 \<le> real_of_int \<bar>n\<bar>" unfolding an using lo r t1 by linarith
  then have "real_of_int (2 ^ 52) - 1 / 2 \<le> real_of_int \<bar>n\<bar>" by simp
  then have "real_of_int (2 ^ 52) - 1 < real_of_int \<bar>n\<bar>" by linarith
  then have n1: "2 ^ 52 \<le> \<bar>n\<bar>" by linarith
  have "real_of_int \<bar>n\<bar> < 2 ^ 53 + 1 / 2" unfolding an using hi r t2 by linarith
  then have "real_of_int \<bar>n\<bar> < real_of_int (2 ^ 53) + 1 / 2" by simp
  then have "real_of_int \<bar>n\<bar> < real_of_int (2 ^ 53 + 1)" by simp
  then have n2: "\<bar>n\<bar> \<le> 2 ^ 53" by linarith
  from f n1 n2 show ?thesis unfolding e_def by blast
qed

section \<open>Evaluation of the definitions\<close>

lemmas handler_defs = tick_def endGame_def timeout_def cashOut_def placeBet_def startNewGame_def
  register_def user_join_def initial_def running_def currentGame_def settle_def toNumber_def
  openBetOf_def orNull_def pushHistory_def summary_def toFixed_def paidBet_def Let_def

lemmas fl_eval = fl_def ilog2_def pow2_def roundEven_def log2n.simps Let_def

lemmas run_defs = afterRegister_def round200_def oneBet_def twoBets_def autoBet_def round500_def
  paidOut_def twoBetsAt150_def firstPaid_def secondPaid_def bob_def
  round101_def round161_def

lemma draw200_crashPoint: "generateCrashPoint draw200 = 2"
  by (simp add: generateCrashPoint_def draw200_def Let_def)

lemma draw500_crashPoint: "generateCrashPoint draw500 = 5"
  by (simp add: generateCrashPoint_def draw500_def Let_def)

lemma draw101_crashPoint: "generateCrashPoint draw101 = 1.01"
  by (simp add: generateCrashPoint_def draw101_def Let_def)

lemma draw161_crashPoint: "generateCrashPoint draw161 = 1.61"
  by (simp add: generateCrashPoint_def draw161_def Let_def)

lemmas eval_defs = handler_defs run_defs fl_eval playersOf_def balanceOf_def
  draw200_crashPoint draw500_crashPoint draw101_crashPoint draw161_crashPoint

text \<open>
  \<open>fl\<close> on the constants and on two products and sums of the program, as the doubles the
  program computes: \<^verbatim>\<open>0.05\<close>, \<^verbatim>\<open>1.61\<close>, \<^verbatim>\<open>1.0 + 0.3 * 0.05\<close> and
  \<^verbatim>\<open>1.0 + 12.2 * 0.05\<close>.
\<close>

lemma fl_examples:
  "fl 0.05 = 3602879701896397 / 2 ^ 56"
  "fl 1.61 = 7250795400066499 / 2 ^ 52"
  "fl (1 + fl (fl (300 / 1000) * fl 0.05)) = 4571153621781053 / 2 ^ 52"
  "fl (1 + fl (fl (12200 / 1000) * fl 0.05)) = 7250795400066498 / 2 ^ 52"
  "fl 1.5 = 1.5" "fl 1000 = 1000" "fl (- 100) = - 100"
  by (simp_all add: fl_eval)


section \<open>The crash point generator (C7)\<close>

text \<open>
  Both operands of the division are integers below \<open>2^39\<close>, which doubles represent
  exactly; the floor of their quotient is their integer quotient, and the result is that
  quotient, clamped between 101 and 10000, in hundredths.
\<close>

lemma hundredths_clamp:
  "max 1.01 (min (real_of_int q / 100) 100) = real_of_int (max 101 (min q 10000)) / 100"
  by (simp add: max_def min_def)

text \<open>
  C7: for every 32-bit unsigned draw \<open>h\<close>, \<^verbatim>\<open>generateCrashPoint\<close> returns a value
  between 1.01 and 100.00 that is a whole number of hundredths, and it is the value of the
  formula of the specification: the floor of \<open>(100 * 2^32 - h) / (2^32 - h)\<close>, divided by
  100 and clamped to that interval.
\<close>

theorem generateCrashPoint_range:
  "1.01 \<le> generateCrashPoint hw \<and> generateCrashPoint hw \<le> 100
   \<and> generateCrashPoint hw
       = real_of_int (max 101 (min ((100 * 2 ^ 32 - int (unat hw)) div (2 ^ 32 - int (unat hw)))
           10000)) / 100
   \<and> generateCrashPoint hw = spec_draw (unat hw)"
proof -
  define a b :: int where "a = 100 * 2 ^ 32 - int (unat hw)" and "b = 2 ^ 32 - int (unat hw)"
  define q :: int where "q = \<lfloor>(100 * 2 ^ 32 - real (unat hw)) / (2 ^ 32 - real (unat hw))\<rfloor>"
  have "(100 * 2 ^ 32 - real (unat hw)) / (2 ^ 32 - real (unat hw)) = real_of_int a / real_of_int b"
    by (simp add: a_def b_def)
  then have qd: "q = a div b"
    unfolding q_def by (simp only: floor_divide_of_int_eq)
  have g: "generateCrashPoint hw = max 1.01 (min (real_of_int q / 100) 100)"
    by (simp add: generateCrashPoint_def Let_def q_def)
  have s: "spec_draw (unat hw) = (if real_of_int q / 100 < 1.01 then 1.01
            else if 100 < real_of_int q / 100 then 100 else real_of_int q / 100)"
    by (simp add: spec_draw_def Let_def q_def)
  have r: "1.01 \<le> generateCrashPoint hw \<and> generateCrashPoint hw \<le> 100"
    unfolding g by simp
  have k: "generateCrashPoint hw = real_of_int (max 101 (min (a div b) 10000)) / 100"
    unfolding g hundredths_clamp qd ..
  have e: "generateCrashPoint hw = spec_draw (unat hw)"
    unfolding g s by (simp add: max_def min_def)
  from r k e show ?thesis unfolding a_def b_def by blast
qed

section \<open>Settlement at the crash (C1)\<close>

lemma map_of_update:
  "map_of (AList.update k v al) k' = (if k' = k then Some v else map_of al k')"
  by (simp add: update_conv')

lemma settle_cashedOut: "cashedOut (settle m p) = cashedOut p"
  by (simp add: settle_def)

lemma settle_cashOutMultiplier: "cashOutMultiplier (settle m p) = cashOutMultiplier p"
  by (simp add: settle_def)

lemma settle_open: "\<not> cashedOut p \<Longrightarrow> settle m p = p\<lparr>won := False, profit := - bet p\<rparr>"
  by (simp add: settle_def)

lemma endGame_users: "users (endGame gameId now s) = users s"
  by (simp add: endGame_def Let_def split: option.split)

text \<open>
  C1: at settlement a bet that was cashed out at multiplier \<open>x\<close> should keep the profit
  \<open>stake * x - stake\<close> that the cash-out handler recorded. Evaluated on a run of the
  server: the account stakes 100 in a round with crash point 2.00, cashes out at 1.50 (profit
  50, balance 1050), and the tick at multiplier 2.00 ends the round. \<^verbatim>\<open>endGame\<close> then
  overwrites the profit of the cashed-out bet with \<open>stake * x = 150\<close>; the balance is not
  touched.
\<close>

theorem endGame_profit_of_cashed_out_bet:
  "map profit (playersOf paidOut ''g1'') = [50]
   \<and> map cashOutMultiplier (playersOf paidOut ''g1'') = [Some 1.5]
   \<and> balanceOf paidOut ''ann'' = Some 1050
   \<and> map profit (playersOf (tick ''g1'' 21000 paidOut) ''g1'') = [150]
   \<and> balanceOf (tick ''g1'' 21000 paidOut) ''ann'' = Some 1050"
  by (simp add: eval_defs)

section \<open>The tick and auto-cash-out thresholds (C2)\<close>

lemma endGame_cashedOut:
  "map cashedOut (playersOf (endGame gameId now s) k) = map cashedOut (playersOf s k)"
  by (simp add: endGame_def playersOf_def Let_def map_of_update settle_cashedOut comp_def
      split: option.split)

lemma endGame_thresholds:
  "map cashOutMultiplier (playersOf (endGame gameId now s) k)
     = map cashOutMultiplier (playersOf s k)"
  by (simp add: endGame_def playersOf_def Let_def map_of_update settle_cashOutMultiplier comp_def
      split: option.split)

lemma playersOf_multiplier_update:
  "map_of (activeGames s) k = Some gs \<Longrightarrow>
   playersOf (s\<lparr>activeGames := AList.update k (gs\<lparr>multiplier := m\<rparr>) (activeGames s)\<rparr>) k'
     = playersOf s k'"
  by (simp add: playersOf_def map_of_update)

text \<open>
  C2, as the code has it: a clock tick cashes out no bet. It changes no account, no bet's
  cashed-out flag and no stored threshold, whatever the multiplier it computes; a bet placed
  with an auto-cash-out threshold stays open until a cash-out request or until settlement
  marks it lost.
\<close>

theorem tick_cashes_out_no_bet:
  "users (tick gameId now s) = users s
   \<and> map cashedOut (playersOf (tick gameId now s) k) = map cashedOut (playersOf s k)
   \<and> map cashOutMultiplier (playersOf (tick gameId now s) k)
       = map cashOutMultiplier (playersOf s k)"
proof (cases "gameState s")
  case None
  then show ?thesis by (simp add: tick_def)
next
  case (Some k0)
  show ?thesis
  proof (cases "map_of (activeGames s) k0")
    case None
    with Some show ?thesis by (simp add: tick_def)
  next
    case g: (Some gs)
    show ?thesis
    proof (cases "isRunning gs")
      case False
      with Some g show ?thesis by (simp add: tick_def)
    next
      case True
      define te where "te = fl (real_of_int (now - startTime gs) / 1000)"
      define m where "m = fl (1 + fl (te * fl 0.05))"
      define s' where "s' = s\<lparr>activeGames := AList.update k0 (gs\<lparr>multiplier := m\<rparr>) (activeGames s)\<rparr>"
      have p: "playersOf s' k = playersOf s k"
        unfolding s'_def using g by (rule playersOf_multiplier_update)
      have u: "users s' = users s" by (simp add: s'_def)
      show ?thesis
      proof (cases "crashPoint gs \<le> m")
        case crash: True
        have "tick gameId now s = endGame gameId now s'"
          using Some g True crash by (simp add: tick_def Let_def m_def te_def s'_def)
        then show ?thesis
          by (simp add: endGame_users endGame_cashedOut endGame_thresholds p u)
      next
        case live: False
        have "tick gameId now s = s'\<lparr>emitted := emitted s' @
            [game_update gameId (toFixed 2 m) (toFixed 1 te)]\<rparr>"
          using Some g True live by (simp add: tick_def Let_def m_def te_def s'_def)
        then show ?thesis
          using p u by (simp add: playersOf_def)
      qed
    qed
  qed
qed

text \<open>
  C2 as stated fails: a bet with threshold 1.80 in a round with crash point 2.00 is still
  open, and the balance still 900, after the tick that computes the multiplier 1.80 and
  sends the update; the tick at 2.00 ends the round with the bet open, and it is settled as
  lost with profit -100.
\<close>

theorem tick_auto_cashout_counterexample:
  "map cashOutMultiplier (playersOf autoBet ''g1'') = [Some 1.8]
   \<and> map cashedOut (playersOf (tick ''g1'' 17000 autoBet) ''g1'') = [False]
   \<and> balanceOf (tick ''g1'' 17000 autoBet) ''ann'' = Some 900
   \<and> emitted (tick ''g1'' 17000 autoBet) = emitted autoBet @ [game_update ''g1'' 180 160]
   \<and> map cashedOut (playersOf (tick ''g1'' 21000 (tick ''g1'' 17000 autoBet)) ''g1'') = [False]
   \<and> map profit (playersOf (tick ''g1'' 21000 (tick ''g1'' 17000 autoBet)) ''g1'') = [- 100]
   \<and> balanceOf (tick ''g1'' 21000 (tick ''g1'' 17000 autoBet)) ''ann'' = Some 900"
  by (simp add: eval_defs)

section \<open>What the messages tell about the crash point (C3)\<close>

text \<open>
  C3, as the code has it: the message sent when a round starts carries the round identifier,
  the crash point (the double the program holds) and the start timestamp, and an observer
  who joins while a round is running is sent that round's whole object, crash point
  included.
\<close>

theorem crashPoint_sent_to_clients:
  "(\<not> running s \<longrightarrow>
      emitted (startNewGame gameId hw now s)
        = emitted s @ [game_start gameId (fl (generateCrashPoint hw)) now])
   \<and> (find isRunning (map snd (activeGames s')) = Some g \<longrightarrow>
      emitted (user_join socketId userData now' s')
        = emitted s' @
          [game_state socketId g,
           online_update (length (onlineUsers (user_join socketId userData now' s')))
             (map (\<lambda>u. map_of (snd u) ''username'')
                (onlineUsers (user_join socketId userData now' s')))])"
  by (simp add: startNewGame_def user_join_def Let_def)

text \<open>
  The round with crash point 2.00, and an observer joining it.
\<close>

theorem crashPoint_sent_to_clients_witness:
  "\<not> running afterRegister
   \<and> emitted round200 = emitted afterRegister @ [game_start ''g1'' 2 1000]
   \<and> map crashPointIn (emitted (user_join ''sock1'' bob 1500 round200))
       = map crashPointIn (emitted round200) @ [Some 2, None]"
proof -
  define g where "g = \<lparr>g_id = ''g1'', isRunning = True, multiplier = 1, crashPoint = 2,
    startTime = 1000, players = ([]::player list), history = [], winner = None, endTime = None\<rparr>"
  have a: "\<not> running afterRegister"
    by (simp add: eval_defs)
  have b: "find isRunning (map snd (activeGames round200)) = Some g"
    by (simp add: eval_defs g_def)
  have c: "crashPoint g = 2" by (simp add: g_def)
  from crashPoint_sent_to_clients [of afterRegister "''g1''" draw200 1000 round200 g "''sock1''" bob 1500]
  show ?thesis using a b c
    by (simp add: round200_def [symmetric] draw200_crashPoint fl_eval)
qed

text \<open>
  C3 as stated fails: while the round with crash point 2.00 is running, its start message
  is \<open>game_start ''g1'' 2 1000\<close>, and the messages after an observer joined carry the
  crash point twice, in the start message and in the snapshot.
\<close>

theorem crashPoint_withheld_counterexample:
  "running round200
   \<and> emitted round200 = [game_start ''g1'' 2 1000]
   \<and> map crashPointIn (emitted (user_join ''sock1'' bob 1500 round200)) = [Some 2, Some 2, None]"
  by (simp add: eval_defs)

section \<open>Several bets of one account (C4)\<close>

text \<open>
  C4, as the code has it: the place-bet handler has no duplicate check. A request is
  accepted whenever the account exists, the round is running, the balance covers the amount
  and the amount is at least 10, whatever bets the account already holds in the round; it
  appends one more open bet, so the account's number of open bets in the round grows by one.
\<close>

theorem placeBet_accepts_further_bets:
  assumes "users s username = Some u" and "map_of (activeGames s) gameId = Some g"
    and "isRunning g" and "amount \<le> balance u" and "10 \<le> amount"
  shows "fst (placeBet username gameId amount autoCashout now betId s)
           = Inr (fl (balance u - amount), betId)
         \<and> playersOf (snd (placeBet username gameId amount autoCashout now betId s)) gameId
           = players g @ [\<lparr>p_id = u_id u, p_username = u_username u, bet = amount,
                cashOutMultiplier = orNull autoCashout, cashedOut = False, won = False,
                profit = 0, joinedAt = now\<rparr>]
         \<and> length (filter (openBetOf (u_username u))
              (playersOf (snd (placeBet username gameId amount autoCashout now betId s)) gameId))
           = Suc (length (filter (openBetOf (u_username u)) (players g)))"
  using assms by (simp add: placeBet_def Let_def playersOf_def map_of_update openBetOf_def)

text \<open>
  An account with one open bet places a second one.
\<close>

theorem placeBet_accepts_further_bets_witness:
  "length (filter (openBetOf ''ann'') (playersOf oneBet ''g1'')) = 1
   \<and> fst (placeBet ''ann'' ''g1'' 100 None 1200 ''b2'' oneBet) = Inr (800, ''b2'')
   \<and> length (filter (openBetOf ''ann'') (playersOf twoBets ''g1'')) = 2"
proof -
  define u where "u = \<lparr>u_id = ''u1'', u_username = ''ann'', password = ''pw'', balance = 900,
    gamesPlayed = 1, gamesWon = 0, totalProfit = 0, createdAt = 0\<rparr>"
  define g where "g = the (map_of (activeGames oneBet) ''g1'')"
  have h1: "users oneBet ''ann'' = Some u" by (simp add: eval_defs u_def)
  have h2: "map_of (activeGames oneBet) ''g1'' = Some g" by (simp add: eval_defs g_def)
  have h3: "isRunning g" by (simp add: eval_defs g_def)
  have h4: "100 \<le> balance u" by (simp add: u_def)
  have h5: "(10::real) \<le> 100" by simp
  have o: "length (filter (openBetOf ''ann'') (players g)) = 1"
    by (simp add: eval_defs g_def)
  have p: "playersOf oneBet ''g1'' = players g" by (simp add: playersOf_def h2)
  from placeBet_accepts_further_bets [OF h1 h2 h3 h4 h5, of None 1200 "''b2''"]
  show ?thesis using o p by (simp add: twoBets_def [symmetric] u_def openBetOf_def fl_eval)
qed

text \<open>
  C4 as stated fails: the account already holds an open bet in the round, the second
  request succeeds with the new balance 800, and the round then has two open bets of that
  account.
\<close>

theorem placeBet_duplicate_counterexample:
  "map (openBetOf ''ann'') (playersOf oneBet ''g1'') = [True]
   \<and> fst (placeBet ''ann'' ''g1'' 100 None 1200 ''b2'' oneBet) = Inr (800, ''b2'')
   \<and> map (openBetOf ''ann'') (playersOf twoBets ''g1'') = [True, True]"
  by (simp add: eval_defs)

section \<open>The multiplier of a crashed round (C5)\<close>

lemma endGame_running:
  assumes "map_of (activeGames s) gameId = Some g" and "isRunning g"
  shows "endGame gameId now s =
     s\<lparr>activeGames := AList.update gameId
          (g\<lparr>isRunning := False, endTime := Some now,
             players := map (settle (multiplier g)) (players g)\<rparr>) (activeGames s),
       gameHistory := pushHistory (gameHistory s)
          (summary (g\<lparr>isRunning := False, endTime := Some now,
             players := map (settle (multiplier g)) (players g)\<rparr>)),
       emitted := emitted s @
          [game_end gameId (toFixed 2 (multiplier g)) (crashPoint g)
             (map (settle (multiplier g)) (players g))
             (length (filter won (map (settle (multiplier g)) (players g))))]\<rparr>"
  using assms by (simp add: endGame_def Let_def)

text \<open>
  The tick, case by case, for the game object \<^verbatim>\<open>gameState\<close> refers to: \<open>m\<close> is the
  multiplier it computes in double arithmetic from the elapsed milliseconds.
\<close>

lemma tick_running:
  assumes "gameState s = Some k" and "map_of (activeGames s) k = Some gs" and "isRunning gs"
    and "te = fl (real_of_int (now - startTime gs) / 1000)"
    and "m = fl (1 + fl (te * fl 0.05))"
  shows "tick gameId now s =
     (if crashPoint gs \<le> m
      then endGame gameId now
             (s\<lparr>activeGames := AList.update k (gs\<lparr>multiplier := m\<rparr>) (activeGames s)\<rparr>)
      else s\<lparr>activeGames := AList.update k (gs\<lparr>multiplier := m\<rparr>) (activeGames s),
             emitted := emitted s @ [game_update gameId (toFixed 2 m) (toFixed 1 te)]\<rparr>)"
  using assms by (simp add: tick_def Let_def)

text \<open>
  C5, as the code has it: a tick computes the multiplier \<open>1.0 + elapsed * 0.05\<close> in double
  arithmetic, stores it, and ends the round exactly when it is at least the crash point;
  otherwise the round goes on with that multiplier. \<^verbatim>\<open>endGame\<close>, whether a tick or the
  30 second timeout calls it, never assigns the multiplier: the ended round keeps the value
  the last tick stored, and the end message reports that value, formatted to two decimals,
  as the final multiplier, next to the crash point.
\<close>

theorem crash_keeps_last_computed_multiplier:
  "(gameState s = Some gameId \<and> map_of (activeGames s) gameId = Some g \<and> isRunning g
      \<and> m = fl (1 + fl (fl (real_of_int (now - startTime g) / 1000) * fl 0.05))
    \<longrightarrow> (crashPoint g \<le> m \<longrightarrow>
          map_option multiplier (map_of (activeGames (tick gameId now s)) gameId) = Some m
        \<and> map_option isRunning (map_of (activeGames (tick gameId now s)) gameId) = Some False
        \<and> emitted (tick gameId now s) = emitted s @
            [game_end gameId (toFixed 2 m) (crashPoint g) (map (settle m) (players g))
               (length (filter won (map (settle m) (players g))))])
      \<and> (m < crashPoint g \<longrightarrow>
          map_option multiplier (map_of (activeGames (tick gameId now s)) gameId) = Some m
        \<and> map_option isRunning (map_of (activeGames (tick gameId now s)) gameId) = Some True))
   \<and> (map_of (activeGames s') gameId' = Some g' \<and> isRunning g'
    \<longrightarrow> map_option multiplier (map_of (activeGames (endGame gameId' now' s')) gameId')
        = Some (multiplier g')
      \<and> map_option isRunning (map_of (activeGames (endGame gameId' now' s')) gameId')
        = Some False
      \<and> emitted (endGame gameId' now' s') = emitted s' @
          [game_end gameId' (toFixed 2 (multiplier g')) (crashPoint g')
             (map (settle (multiplier g')) (players g'))
             (length (filter won (map (settle (multiplier g')) (players g'))))])"
proof (intro conjI impI)
  assume a: "gameState s = Some gameId \<and> map_of (activeGames s) gameId = Some g \<and> isRunning g
      \<and> m = fl (1 + fl (fl (real_of_int (now - startTime g) / 1000) * fl 0.05))"
  define s1 where "s1 = s\<lparr>activeGames := AList.update gameId (g\<lparr>multiplier := m\<rparr>) (activeGames s)\<rparr>"
  from a have t: "tick gameId now s =
     (if crashPoint g \<le> m then endGame gameId now s1
      else s1\<lparr>emitted := emitted s @ [game_update gameId (toFixed 2 m)
                (toFixed 1 (fl (real_of_int (now - startTime g) / 1000)))]\<rparr>)"
    using tick_running [of s gameId g "fl (real_of_int (now - startTime g) / 1000)" now m gameId]
    by (simp add: s1_def)
  have g1: "map_of (activeGames s1) gameId = Some (g\<lparr>multiplier := m\<rparr>)"
    by (simp add: s1_def map_of_update)
  have r1: "isRunning (g\<lparr>multiplier := m\<rparr>)" using a by simp
  have es: "emitted s1 = emitted s" by (simp add: s1_def)
  note e = endGame_running [OF g1 r1, of now]
  {
    assume c: "crashPoint g \<le> m"
    show "map_option multiplier (map_of (activeGames (tick gameId now s)) gameId) = Some m"
      using c unfolding t by (simp add: e map_of_update)
    show "map_option isRunning (map_of (activeGames (tick gameId now s)) gameId) = Some False"
      using c unfolding t by (simp add: e map_of_update)
    show "emitted (tick gameId now s) = emitted s @
            [game_end gameId (toFixed 2 m) (crashPoint g) (map (settle m) (players g))
               (length (filter won (map (settle m) (players g))))]"
      using c unfolding t by (simp add: e es)
  }
  {
    assume l: "m < crashPoint g"
    show "map_option multiplier (map_of (activeGames (tick gameId now s)) gameId) = Some m"
      using l unfolding t by (simp add: s1_def map_of_update)
    show "map_option isRunning (map_of (activeGames (tick gameId now s)) gameId) = Some True"
      using l a unfolding t by (simp add: s1_def map_of_update)
  }
next
  assume b: "map_of (activeGames s') gameId' = Some g' \<and> isRunning g'"
  then have g': "map_of (activeGames s') gameId' = Some g'" and r': "isRunning g'" by simp_all
  note e = endGame_running [OF g' r', of now']
  show "map_option multiplier (map_of (activeGames (endGame gameId' now' s')) gameId')
        = Some (multiplier g')"
    unfolding e by (simp add: map_of_update)
  show "map_option isRunning (map_of (activeGames (endGame gameId' now' s')) gameId')
        = Some False"
    unfolding e by (simp add: map_of_update)
  show "emitted (endGame gameId' now' s') = emitted s' @
          [game_end gameId' (toFixed 2 (multiplier g')) (crashPoint g')
             (map (settle (multiplier g')) (players g'))
             (length (filter won (map (settle (multiplier g')) (players g'))))]"
    unfolding e by simp
qed

text \<open>
  A tick at 20.102 seconds in the round with crash point 2.00, a tick at 12.2 seconds in the
  round with crash point 1.61 (it computes 1.6099999999999999 and the round goes on), and
  the timeout in the round with crash point 5.00 after a last tick at 29.96 seconds.
\<close>

theorem crash_keeps_last_computed_multiplier_witness:
  "map_option multiplier (map_of (activeGames (tick ''g1'' 21102 round200)) ''g1'')
     = Some (4515083806420291 / 2 ^ 51)
   \<and> emitted (tick ''g1'' 21102 round200) = emitted round200 @ [game_end ''g1'' 201 2 [] 0]
   \<and> map_option isRunning (map_of (activeGames (tick ''g6'' 13200 round161)) ''g6'') = Some True
   \<and> map_option multiplier
        (map_of (activeGames (endGame ''g5'' 31000 (tick ''g5'' 30960 round500))) ''g5'')
       = Some (2812497967292875 / 2 ^ 50)
   \<and> emitted (endGame ''g5'' 31000 (tick ''g5'' 30960 round500))
       = emitted (tick ''g5'' 30960 round500) @ [game_end ''g5'' 250 5 [] 0]"
proof -
  define g where "g = \<lparr>g_id = ''g1'', isRunning = True, multiplier = 1, crashPoint = 2,
    startTime = 1000, players = ([]::player list), history = [], winner = None, endTime = None\<rparr>"
  define g6 where "g6 = \<lparr>g_id = ''g6'', isRunning = True, multiplier = 1,
    crashPoint = 7250795400066499 / 2 ^ 52,
    startTime = 1000, players = ([]::player list), history = [], winner = None, endTime = None\<rparr>"
  define g' where "g' = \<lparr>g_id = ''g5'', isRunning = True,
    multiplier = 2812497967292875 / 2 ^ 50, crashPoint = 5,
    startTime = 1000, players = ([]::player list), history = [], winner = None, endTime = None\<rparr>"
  have m1: "fl (1 + fl (fl (real_of_int (21102 - 1000) / 1000) * fl 0.05))
      = 4515083806420291 / 2 ^ 51"
    by (simp add: fl_eval)
  have m6: "fl (1 + fl (fl (real_of_int (13200 - 1000) / 1000) * fl 0.05))
      = 7250795400066498 / 2 ^ 52"
    by (simp add: fl_eval)
  have a: "gameState round200 = Some ''g1'' \<and> map_of (activeGames round200) ''g1'' = Some g
      \<and> isRunning g
      \<and> 4515083806420291 / 2 ^ 51
          = fl (1 + fl (fl (real_of_int (21102 - startTime g) / 1000) * fl 0.05))"
    by (simp add: eval_defs g_def)
  have a': "crashPoint g \<le> 4515083806420291 / 2 ^ 51" by (simp add: g_def)
  have b: "gameState round161 = Some ''g6'' \<and> map_of (activeGames round161) ''g6'' = Some g6
      \<and> isRunning g6
      \<and> 7250795400066498 / 2 ^ 52
          = fl (1 + fl (fl (real_of_int (13200 - startTime g6) / 1000) * fl 0.05))"
    by (simp add: eval_defs g6_def)
  have b': "7250795400066498 / 2 ^ 52 < crashPoint g6" by (simp add: g6_def)
  have c: "map_of (activeGames (tick ''g5'' 30960 round500)) ''g5'' = Some g' \<and> isRunning g'"
    by (simp add: eval_defs g'_def)
  from crash_keeps_last_computed_multiplier
         [of round200 "''g1''" g "4515083806420291 / 2 ^ 51" 21102
             "tick ''g5'' 30960 round500" "''g5''" g' 31000]
       crash_keeps_last_computed_multiplier
         [of round161 "''g6''" g6 "7250795400066498 / 2 ^ 52" 13200
             "tick ''g5'' 30960 round500" "''g5''" g' 31000]
  show ?thesis using a a' b b' c by (simp add: g_def g'_def g6_def toFixed_def settle_def)
qed

text \<open>
  C5 as stated fails: the round with crash point 2.00 ends with the multiplier
  2.0051 (as a double) and reports 2.01; the round with crash point 5.00 is ended by the
  timeout with the multiplier 2.498 (as a double) and reports 2.50.
\<close>

theorem multiplier_frozen_counterexample:
  "map_option multiplier (map_of (activeGames (tick ''g1'' 21102 round200)) ''g1'')
     = Some (4515083806420291 / 2 ^ 51)
   \<and> map_option crashPoint (map_of (activeGames (tick ''g1'' 21102 round200)) ''g1'') = Some 2
   \<and> emitted (tick ''g1'' 21102 round200) = emitted round200 @ [game_end ''g1'' 201 2 [] 0]
   \<and> map_option multiplier
        (map_of (activeGames (timeout ''g5'' 31000 (tick ''g5'' 30960 round500))) ''g5'')
       = Some (2812497967292875 / 2 ^ 50)
   \<and> emitted (timeout ''g5'' 31000 (tick ''g5'' 30960 round500))
       = emitted round500 @ [game_update ''g5'' 250 300, game_end ''g5'' 250 5 [] 0]"
  by (simp add: eval_defs)

text \<open>
  Two more ticks: at 0.3 seconds with crash point 1.01 the tick computes
  1.0149999999999999 and the end message reports 1.01; at 12.2 seconds with crash point
  1.61 the update message reports 1.61 and 12.2.
\<close>

lemma tick_examples:
  "emitted (tick ''g0'' 1300 round101)
     = emitted round101 @ [game_end ''g0'' 101 (fl 1.01) [] 0]"
  "map_option multiplier (map_of (activeGames (tick ''g0'' 1300 round101)) ''g0'')
     = Some (4571153621781053 / 2 ^ 52)"
  "emitted (tick ''g6'' 13200 round161) = emitted round161 @ [game_update ''g6'' 161 122]"
  "map_option isRunning (map_of (activeGames (tick ''g6'' 13200 round161)) ''g6'') = Some True"
  by (simp_all add: eval_defs)

section \<open>Repeated cash-out requests (C6)\<close>

lemma find_None_filter: "find P xs = None \<longleftrightarrow> filter P xs = []"
  by (induction xs) auto

lemma find_first: "filter P pre = [] \<Longrightarrow> P p \<Longrightarrow> find P (pre @ p # post) = Some p"
  by (induction pre) (auto split: if_splits)

lemma update_first_first:
  "filter P pre = [] \<Longrightarrow> P p \<Longrightarrow> update_first P f (pre @ p # post) = pre @ f p # post"
  by (induction pre) (auto split: if_splits)

lemma paidBet_closed: "\<not> openBetOf username (paidBet m w q)"
  by (simp add: openBetOf_def paidBet_def)

text \<open>
  The cash-out handler when the account's first open bet in the round's list is \<open>p\<close>: the
  response and the whole next state.
\<close>

lemma cashOut_first_open:
  assumes "users s username = Some u" and "map_of (activeGames s) gameId = Some g"
    and "isRunning g" and "players g = pre @ p # post"
    and "filter (openBetOf username) pre = []" and "openBetOf username p"
    and "w = fl (bet p * multiplier g)"
  shows "cashOut username gameId s =
     (Inr (toFixed 2 (multiplier g), w, fl (balance u + w)),
      s\<lparr>users := (users s)(username \<mapsto>
            u\<lparr>balance := fl (balance u + w),
              totalProfit := fl (totalProfit u + fl (w - bet p)),
              gamesWon := (if bet p < w then gamesWon u + 1 else gamesWon u)\<rparr>),
        activeGames := AList.update gameId
            (g\<lparr>players := pre @ paidBet (multiplier g) w p # post\<rparr>) (activeGames s),
        emitted := emitted s @ [cash_out gameId username (toFixed 2 (multiplier g)) w]\<rparr>)"
proof -
  have f: "find (openBetOf username) (players g) = Some p"
    using assms(4-6) by (simp add: find_first)
  have uf: "update_first (openBetOf username) (paidBet (multiplier g) w) (players g)
      = pre @ paidBet (multiplier g) w p # post"
    using assms(4-6) by (simp add: update_first_first)
  show ?thesis
    using assms(1-3) f uf assms(7) by (simp add: cashOut_def Let_def)
qed

text \<open>
  Every successful cash-out request is of the form of \<open>cashOut_first_open\<close>: the account
  exists, the round is running, and the account has a first open bet in the round's list.
\<close>

lemma find_Some_split:
  "find P xs = Some p \<Longrightarrow> \<exists>pre post. xs = pre @ p # post \<and> filter P pre = [] \<and> P p"
proof (induction xs)
  case Nil
  then show ?case by simp
next
  case (Cons x xs)
  show ?case
  proof (cases "P x")
    case True
    with Cons.prems have "x # xs = [] @ p # xs \<and> filter P [] = [] \<and> P p" by simp
    then show ?thesis by blast
  next
    case False
    with Cons.prems have "find P xs = Some p" by simp
    from Cons.IH [OF this] obtain pre post
      where "xs = pre @ p # post" "filter P pre = []" "P p" by blast
    with False have "x # xs = (x # pre) @ p # post \<and> filter P (x # pre) = [] \<and> P p" by simp
    then show ?thesis by blast
  qed
qed

lemma cashOut_success_form:
  assumes "cashOut username gameId s = (Inr r, s')"
  shows "\<exists>u g pre p post. users s username = Some u \<and> map_of (activeGames s) gameId = Some g
    \<and> isRunning g \<and> players g = pre @ p # post
    \<and> filter (openBetOf username) pre = [] \<and> openBetOf username p"
proof -
  from assms obtain u g p where "users s username = Some u"
    and "map_of (activeGames s) gameId = Some g" and "isRunning g"
    and "find (openBetOf username) (players g) = Some p"
    by (auto simp: cashOut_def split: option.splits if_splits)
  with find_Some_split [of "openBetOf username" "players g" p] show ?thesis by blast
qed

text \<open>
  C6, as the code has it: a cash-out request of an account whose first open bet in the
  round's list is \<open>p\<close> succeeds, pays \<open>stake * multiplier\<close> of that bet (in double
  arithmetic) to the account, marks that one bet cashed out and changes nothing else but
  the account's counters and the message log; so a bet leaves the open state at most once.
  A second request for the same account and round fails with \<open>NoOpenBet\<close> and changes
  nothing when the account has no further open bet; when it has one, the second request
  succeeds and pays the next open bet in the list.
\<close>

theorem cashOut_pays_first_open_bet:
  assumes "users s username = Some u" and "map_of (activeGames s) gameId = Some g"
    and "isRunning g" and "players g = pre @ p # post"
    and "filter (openBetOf username) pre = []" and "openBetOf username p"
    and "w = fl (bet p * multiplier g)"
    and "s' = snd (cashOut username gameId s)"
  shows "fst (cashOut username gameId s) = Inr (toFixed 2 (multiplier g), w, fl (balance u + w))
    \<and> s' = s\<lparr>users := (users s)(username \<mapsto>
               u\<lparr>balance := fl (balance u + w),
                 totalProfit := fl (totalProfit u + fl (w - bet p)),
                 gamesWon := (if bet p < w then gamesWon u + 1 else gamesWon u)\<rparr>),
             activeGames := AList.update gameId
               (g\<lparr>players := pre @ paidBet (multiplier g) w p # post\<rparr>) (activeGames s),
             emitted := emitted s @ [cash_out gameId username (toFixed 2 (multiplier g)) w]\<rparr>
    \<and> balanceOf s' username = Some (fl (balance u + w))
    \<and> playersOf s' gameId = pre @ paidBet (multiplier g) w p # post
    \<and> (filter (openBetOf username) post = [] \<longrightarrow>
          cashOut username gameId s' = (Inl NoOpenBet, s'))
    \<and> (\<forall>mid q rest.
          post = mid @ q # rest \<and> filter (openBetOf username) mid = [] \<and> openBetOf username q
          \<longrightarrow> fst (cashOut username gameId s')
                = Inr (toFixed 2 (multiplier g), fl (bet q * multiplier g),
                       fl (fl (balance u + w) + fl (bet q * multiplier g)))
              \<and> playersOf (snd (cashOut username gameId s')) gameId
                = pre @ paidBet (multiplier g) w p # mid
                  @ paidBet (multiplier g) (fl (bet q * multiplier g)) q # rest)"
proof -
  define u' where "u' = u\<lparr>balance := fl (balance u + w),
      totalProfit := fl (totalProfit u + fl (w - bet p)),
      gamesWon := (if bet p < w then gamesWon u + 1 else gamesWon u)\<rparr>"
  define g' where "g' = g\<lparr>players := pre @ paidBet (multiplier g) w p # post\<rparr>"
  note c = cashOut_first_open [OF assms(1-7)]
  have first: "fst (cashOut username gameId s)
      = Inr (toFixed 2 (multiplier g), w, fl (balance u + w))"
    by (simp add: c)
  have s': "s' = s\<lparr>users := (users s)(username \<mapsto> u'),
      activeGames := AList.update gameId g' (activeGames s),
      emitted := emitted s @ [cash_out gameId username (toFixed 2 (multiplier g)) w]\<rparr>"
    by (simp add: assms(8) c u'_def g'_def)
  have us': "users s' username = Some u'" by (simp add: s')
  have gs': "map_of (activeGames s') gameId = Some g'" by (simp add: s' map_of_update)
  have run': "isRunning g'" using assms(3) by (simp add: g'_def)
  have ps': "players g' = pre @ paidBet (multiplier g) w p # post" by (simp add: g'_def)
  have bal: "balanceOf s' username = Some (fl (balance u + w))"
    by (simp add: balanceOf_def us' u'_def)
  have pl: "playersOf s' gameId = pre @ paidBet (multiplier g) w p # post"
    by (simp add: playersOf_def gs' ps')
  have none: "cashOut username gameId s' = (Inl NoOpenBet, s')"
    if "filter (openBetOf username) post = []"
  proof -
    have "filter (openBetOf username) (players g') = []"
      using that assms(5) by (simp add: ps' paidBet_closed)
    then have "find (openBetOf username) (players g') = None"
      by (simp add: find_None_filter)
    then show ?thesis using us' gs' run' by (simp add: cashOut_def)
  qed
  have more: "fst (cashOut username gameId s')
                = Inr (toFixed 2 (multiplier g), fl (bet q * multiplier g),
                       fl (fl (balance u + w) + fl (bet q * multiplier g)))
              \<and> playersOf (snd (cashOut username gameId s')) gameId
                = pre @ paidBet (multiplier g) w p # mid
                  @ paidBet (multiplier g) (fl (bet q * multiplier g)) q # rest"
    if "post = mid @ q # rest \<and> filter (openBetOf username) mid = [] \<and> openBetOf username q"
    for mid q rest
  proof -
    have d: "players g' = (pre @ paidBet (multiplier g) w p # mid) @ q # rest"
      using that by (simp add: ps')
    have e: "filter (openBetOf username) (pre @ paidBet (multiplier g) w p # mid) = []"
      using that assms(5) by (simp add: paidBet_closed)
    have q: "openBetOf username q" using that by simp
    have m: "multiplier g' = multiplier g" by (simp add: g'_def)
    have b: "balance u' = fl (balance u + w)" by (simp add: u'_def)
    note c' = cashOut_first_open [OF us' gs' run' d e q refl]
    show ?thesis
      by (simp add: c' m b playersOf_def map_of_update)
  qed
  have s'': "s' = s\<lparr>users := (users s)(username \<mapsto>
               u\<lparr>balance := fl (balance u + w),
                 totalProfit := fl (totalProfit u + fl (w - bet p)),
                 gamesWon := (if bet p < w then gamesWon u + 1 else gamesWon u)\<rparr>),
             activeGames := AList.update gameId
               (g\<lparr>players := pre @ paidBet (multiplier g) w p # post\<rparr>) (activeGames s),
             emitted := emitted s @ [cash_out gameId username (toFixed 2 (multiplier g)) w]\<rparr>"
    unfolding s' u'_def g'_def ..
  from none have none': "filter (openBetOf username) post = [] \<longrightarrow>
          cashOut username gameId s' = (Inl NoOpenBet, s')" ..
  from more have more': "\<forall>mid q rest.
          post = mid @ q # rest \<and> filter (openBetOf username) mid = [] \<and> openBetOf username q
          \<longrightarrow> fst (cashOut username gameId s')
                = Inr (toFixed 2 (multiplier g), fl (bet q * multiplier g),
                       fl (fl (balance u + w) + fl (bet q * multiplier g)))
              \<and> playersOf (snd (cashOut username gameId s')) gameId
                = pre @ paidBet (multiplier g) w p # mid
                  @ paidBet (multiplier g) (fl (bet q * multiplier g)) q # rest"
    by (intro allI impI)
  show ?thesis
    by (rule conjI [OF first conjI [OF s'' conjI [OF bal conjI [OF pl conjI [OF none' more']]]]])
qed

text \<open>
  The account with two open bets of 100 at multiplier 1.50: the first request pays the
  first bet, the second request pays the second bet, the third is refused.
\<close>

theorem cashOut_pays_first_open_bet_witness:
  "fst (cashOut ''ann'' ''g1'' twoBetsAt150) = Inr (150, 150, 950)
   \<and> balanceOf firstPaid ''ann'' = Some 950
   \<and> map cashedOut (playersOf firstPaid ''g1'') = [True, False]
   \<and> fst (cashOut ''ann'' ''g1'' firstPaid) = Inr (150, 150, 1100)
   \<and> map cashedOut (playersOf secondPaid ''g1'') = [True, True]
   \<and> cashOut ''ann'' ''g1'' secondPaid = (Inl NoOpenBet, secondPaid)"
proof -
  define b1 where "b1 = \<lparr>p_id = ''u1'', p_username = ''ann'', bet = 100,
    cashOutMultiplier = None, cashedOut = False, won = False, profit = 0, joinedAt = 1000\<rparr>"
  define b2 where "b2 = \<lparr>p_id = ''u1'', p_username = ''ann'', bet = 100,
    cashOutMultiplier = None, cashedOut = False, won = False, profit = 0, joinedAt = 1200\<rparr>"
  define u where "u = \<lparr>u_id = ''u1'', u_username = ''ann'', password = ''pw'', balance = 800,
    gamesPlayed = 2, gamesWon = 0, totalProfit = 0, createdAt = 0\<rparr>"
  define g where "g = \<lparr>g_id = ''g1'', isRunning = True, multiplier = 1.5, crashPoint = 2,
    startTime = 1000, players = [b1, b2], history = [], winner = None, endTime = None\<rparr>"
  define u1 where "u1 = u\<lparr>balance := 950, totalProfit := 50, gamesWon := 1\<rparr>"
  define g1 where "g1 = g\<lparr>players := [paidBet 1.5 150 b1, b2]\<rparr>"
  have hu: "users twoBetsAt150 ''ann'' = Some u"
    by (simp add: eval_defs u_def)
  have hg: "map_of (activeGames twoBetsAt150) ''g1'' = Some g"
    by (simp add: eval_defs g_def b1_def b2_def)
  have hr: "isRunning g" by (simp add: g_def)
  have hp: "players g = [] @ b1 # [b2]" by (simp add: g_def)
  have h0: "filter (openBetOf ''ann'') [] = []" by simp
  have ho: "openBetOf ''ann'' b1" "openBetOf ''ann'' b2"
    by (simp_all add: openBetOf_def b1_def b2_def)
  have hw: "150 = fl (bet b1 * multiplier g)" "150 = fl (bet b2 * multiplier g1)"
    by (simp_all add: b1_def b2_def g_def g1_def fl_eval)
  have hu1: "users firstPaid ''ann'' = Some u1"
    by (simp add: eval_defs u1_def u_def)
  have hg1: "map_of (activeGames firstPaid) ''g1'' = Some g1"
    by (simp add: eval_defs g1_def g_def b1_def b2_def)
  have hr1: "isRunning g1" by (simp add: g1_def g_def)
  have hp1: "players g1 = [paidBet 1.5 150 b1] @ b2 # []" by (simp add: g1_def)
  have hc1: "filter (openBetOf ''ann'') [paidBet 1.5 150 b1] = []"
    by (simp add: paidBet_closed)
  note t1 = cashOut_pays_first_open_bet [OF hu hg hr hp h0 ho(1) hw(1) firstPaid_def]
  note t2 = cashOut_pays_first_open_bet [OF hu1 hg1 hr1 hp1 hc1 ho(2) hw(2) secondPaid_def]
  have m: "multiplier g = 1.5" "balance u = 800" "bet b2 = 100" "balance u1 = 950"
    "multiplier g1 = 1.5"
    by (simp_all add: g_def u_def b2_def u1_def g1_def)
  have first: "fst (cashOut ''ann'' ''g1'' twoBetsAt150) = Inr (150, 150, 950)"
    using t1 [THEN conjunct1] by (simp add: m fl_eval toFixed_def)
  have bal: "balanceOf firstPaid ''ann'' = Some 950"
    using t1 [THEN conjunct2, THEN conjunct2, THEN conjunct1] by (simp add: m fl_eval toFixed_def)
  have c1: "map cashedOut (playersOf firstPaid ''g1'') = [True, False]"
    using t1 [THEN conjunct2, THEN conjunct2, THEN conjunct2, THEN conjunct1]
    by (simp add: paidBet_def b2_def)
  have d: "[b2] = [] @ b2 # [] \<and> filter (openBetOf ''ann'') [] = [] \<and> openBetOf ''ann'' b2"
    using ho(2) by simp
  note t1' = t1 [THEN conjunct2, THEN conjunct2, THEN conjunct2, THEN conjunct2, THEN conjunct2,
      THEN spec, THEN spec, THEN spec, THEN mp, OF d]
  have second: "fst (cashOut ''ann'' ''g1'' firstPaid) = Inr (150, 150, 1100)"
    using t1' [THEN conjunct1] by (simp add: m fl_eval toFixed_def)
  have c2: "map cashedOut (playersOf secondPaid ''g1'') = [True, True]"
    using t2 [THEN conjunct2, THEN conjunct2, THEN conjunct2, THEN conjunct1]
    by (simp add: paidBet_def)
  have third: "cashOut ''ann'' ''g1'' secondPaid = (Inl NoOpenBet, secondPaid)"
    using t2 [THEN conjunct2, THEN conjunct2, THEN conjunct2, THEN conjunct2, THEN conjunct1]
    by simp
  from first bal c1 second c2 third show ?thesis by simp
qed

text \<open>
  C6 as stated fails: an account with two open bets cashes out twice in the same round, at
  multiplier 1.50; both requests succeed, and the balance goes from 800 to 950 and to 1100.
\<close>

theorem cashOut_twice_counterexample:
  "fst (cashOut ''ann'' ''g1'' twoBetsAt150) = Inr (150, 150, 950)
   \<and> fst (cashOut ''ann'' ''g1'' firstPaid) = Inr (150, 150, 1100)
   \<and> balanceOf firstPaid ''ann'' = Some 950
   \<and> balanceOf (snd (cashOut ''ann'' ''g1'' firstPaid)) ''ann'' = Some 1100"
  by (simp add: eval_defs)

section \<open>Rejected bet amounts (C8)\<close>

text \<open>
  C8: a place-bet request whose amount is below 10 or above the balance of the account is
  answered with an error and leaves the whole state as it was (balances, counters, bet
  lists and messages). For an existing account and a running round the error is
  \<open>InsufficientFunds\<close> when the balance is too small and \<open>BelowMinimumStake\<close> otherwise.
\<close>

theorem placeBet_rejects_bad_amount:
  assumes "amount < 10 \<or> (\<exists>u. users s username = Some u \<and> balance u < amount)"
  shows "(\<exists>e. placeBet username gameId amount autoCashout now betId s = (Inl e, s))
    \<and> (\<forall>u g. users s username = Some u \<and> map_of (activeGames s) gameId = Some g \<and> isRunning g
          \<longrightarrow> fst (placeBet username gameId amount autoCashout now betId s)
              = Inl (if balance u < amount then InsufficientFunds else BelowMinimumStake))"
  using assms by (auto simp: placeBet_def split: option.splits)

text \<open>
  The amounts 5 and 1001 with a balance of 1000.
\<close>

theorem placeBet_rejects_bad_amount_witness:
  "placeBet ''ann'' ''g1'' 5 None 1000 ''b1'' round200 = (Inl BelowMinimumStake, round200)
   \<and> placeBet ''ann'' ''g1'' 1001 None 1000 ''b1'' round200 = (Inl InsufficientFunds, round200)"
proof -
  define u where "u = \<lparr>u_id = ''u1'', u_username = ''ann'', password = ''pw'', balance = 1000,
    gamesPlayed = 0, gamesWon = 0, totalProfit = 0, createdAt = 0\<rparr>"
  define g where "g = \<lparr>g_id = ''g1'', isRunning = True, multiplier = 1, crashPoint = 2,
    startTime = 1000, players = ([]::player list), history = [], winner = None, endTime = None\<rparr>"
  have h: "users round200 ''ann'' = Some u \<and> map_of (activeGames round200) ''g1'' = Some g
      \<and> isRunning g"
    by (simp add: eval_defs u_def g_def)
  have a: "(5::real) < 10 \<or> (\<exists>u. users round200 ''ann'' = Some u \<and> balance u < 5)" by simp
  have b: "(1001::real) < 10 \<or> (\<exists>u. users round200 ''ann'' = Some u \<and> balance u < 1001)"
    using h by (simp add: u_def)
  have bu: "balance u = 1000" by (simp add: u_def)
  from placeBet_rejects_bad_amount [OF a, of "''g1''" None 1000 "''b1''"]
       placeBet_rejects_bad_amount [OF b, of "''g1''" None 1000 "''b1''"] h bu
  show ?thesis by auto
qed

section \<open>The history buffer (C9)\<close>

lemma pushHistory_last100: "pushHistory hist e = last100 (hist @ [e])"
  by (simp add: pushHistory_def last100_def Let_def)

lemma pushHistory_map: "map f (pushHistory hist e) = pushHistory (map f hist) (f e)"
  by (simp add: pushHistory_def Let_def drop_map)

lemma last100_snoc: "last100 (last100 xs @ [x]) = last100 (xs @ [x])"
proof (cases "length xs < 100")
  case True
  then show ?thesis by (simp add: last100_def)
next
  case False
  then have "Suc (length xs - 100) = length xs - 99" by simp
  with False show ?thesis by (simp add: last100_def)
qed

lemma foldl_pushHistory: "foldl pushHistory (last100 xs) ys = last100 (xs @ ys)"
proof (induction ys arbitrary: xs)
  case Nil
  show ?case by (simp add: last100_def)
next
  case (Cons y ys)
  have "foldl pushHistory (last100 xs) (y # ys) = foldl pushHistory (last100 (xs @ [y])) ys"
    by (simp add: pushHistory_last100 last100_snoc)
  also have "\<dots> = last100 ((xs @ [y]) @ ys)" by (rule Cons.IH)
  finally show ?case by simp
qed

lemma filter_eq_key: "distinct xs \<Longrightarrow> k \<in> set xs \<Longrightarrow> filter (\<lambda>x. x = k) xs = [k]"
  by (induction xs) (auto simp: filter_empty_conv)

lemma keys_update_same:
  "map_of al k = Some v \<Longrightarrow> map fst (AList.update k v' al) = map fst al"
  by (simp add: update_keys map_of_eq_None_iff [symmetric] del: map_of_eq_None_iff)

lemma runningIn_update:
  "runningIn (s\<lparr>activeGames := AList.update k g al\<rparr>) k'
     = (if k' = k then isRunning g else runningIn (s\<lparr>activeGames := al\<rparr>) k')"
  by (simp add: runningIn_def map_of_update)

lemma endedBy_none: "(\<And>k. runningIn s k \<Longrightarrow> runningIn s' k) \<Longrightarrow> endedBy s s' = []"
  by (auto simp: endedBy_def filter_empty_conv)

lemma endedBy_cong:
  "activeGames s1 = activeGames s \<Longrightarrow> endedBy s1 s' = endedBy s s'"
  by (simp add: endedBy_def runningIn_def)

lemma keysInv_cong:
  "activeGames s1 = activeGames s \<Longrightarrow> keysInv s1 = keysInv s"
  by (simp add: keysInv_def)

lemma keysInv_update:
  assumes "keysInv s" and "g_id g = k"
  shows "keysInv (s\<lparr>activeGames := AList.update k g (activeGames s)\<rparr>)"
  using assms by (simp add: keysInv_def distinct_update map_of_update)

text \<open>A step that replaces one game object and keeps its identifier and running flag.\<close>

lemma game_update_step:
  assumes "keysInv s" and "map_of (activeGames s) k = Some g"
    and "g_id g' = g_id g" and "isRunning g' = isRunning g"
    and "activeGames s' = AList.update k g' (activeGames s)"
  shows "keysInv s' \<and> endedBy s s' = []"
proof -
  from assms(1,2) have "g_id g = k" by (simp add: keysInv_def)
  with assms(1,3) have "keysInv (s\<lparr>activeGames := AList.update k g' (activeGames s)\<rparr>)"
    by (simp add: keysInv_update)
  then have 1: "keysInv s'"
    using assms(5) by (simp add: keysInv_def)
  have "runningIn s' k' = runningIn s k'" for k'
    using assms(2,4,5) by (simp add: runningIn_def map_of_update)
  then have 2: "endedBy s s' = []" by (simp add: endedBy_none)
  from 1 2 show ?thesis ..
qed

text \<open>\<^verbatim>\<open>endGame\<close> completes the round it is called for when that round is running.\<close>

lemma endGame_completes:
  assumes "keysInv s" and "map_of (activeGames s) gameId = Some g" and "isRunning g"
  shows "keysInv (endGame gameId now s)"
    and "endedBy s (endGame gameId now s) = [gameId]"
    and "map g_id (gameHistory (endGame gameId now s))
           = pushHistory (map g_id (gameHistory s)) gameId"
proof -
  note e = endGame_running [OF assms(2,3), of now]
  from assms(1,2) have k: "g_id g = gameId" by (simp add: keysInv_def)
  show "keysInv (endGame gameId now s)"
    unfolding e using assms(1) k by (simp add: keysInv_def distinct_update map_of_update)
  have keys: "distinct (map fst (activeGames s))" using assms(1) by (simp add: keysInv_def)
  have mem: "gameId \<in> set (map fst (activeGames s))"
    using assms(2) by (metis map_of_eq_None_iff option.distinct(1) set_map)
  have r: "runningIn s gameId" using assms(2,3) by (simp add: runningIn_def)
  have "runningIn (endGame gameId now s) k = (k \<noteq> gameId \<and> runningIn s k)" for k
    unfolding e by (simp add: runningIn_def map_of_update)
  then have "endedBy s (endGame gameId now s)
      = filter (\<lambda>k. k = gameId) (map fst (activeGames s))"
    using r unfolding endedBy_def by (intro filter_cong) auto
  then show "endedBy s (endGame gameId now s) = [gameId]"
    using keys mem by (simp add: filter_eq_key)
  show "map g_id (gameHistory (endGame gameId now s))
           = pushHistory (map g_id (gameHistory s)) gameId"
    unfolding e by (simp add: pushHistory_map summary_def k)
qed

lemma endGame_step:
  assumes "keysInv s"
  shows "keysInv (endGame gameId now s)
    \<and> map g_id (gameHistory (endGame gameId now s))
        = foldl pushHistory (map g_id (gameHistory s)) (endedBy s (endGame gameId now s))"
proof (cases "map_of (activeGames s) gameId")
  case None
  then have "endGame gameId now s = s" by (simp add: endGame_def)
  then show ?thesis using assms by (simp add: endedBy_none)
next
  case (Some g)
  show ?thesis
  proof (cases "isRunning g")
    case False
    with Some have "endGame gameId now s = s" by (simp add: endGame_def)
    then show ?thesis using assms by (simp add: endedBy_none)
  next
    case True
    from endGame_completes [OF assms Some True, of now] show ?thesis by simp
  qed
qed

lemma tick_step:
  assumes "keysInv s"
  shows "keysInv (tick gameId now s)
    \<and> map g_id (gameHistory (tick gameId now s))
        = foldl pushHistory (map g_id (gameHistory s)) (endedBy s (tick gameId now s))"
proof (cases "gameState s")
  case None
  then have "tick gameId now s = s" by (simp add: tick_def)
  then show ?thesis using assms by (simp add: endedBy_none)
next
  case (Some k)
  show ?thesis
  proof (cases "map_of (activeGames s) k")
    case None
    with Some have "tick gameId now s = s" by (simp add: tick_def)
    then show ?thesis using assms by (simp add: endedBy_none)
  next
    case g: (Some gs)
    show ?thesis
    proof (cases "isRunning gs")
      case False
      with Some g have "tick gameId now s = s" by (simp add: tick_def)
      then show ?thesis using assms by (simp add: endedBy_none)
    next
      case True
      define te where "te = fl (real_of_int (now - startTime gs) / 1000)"
      define m where "m = fl (1 + fl (te * fl 0.05))"
      define s1 where "s1 = s\<lparr>activeGames := AList.update k (gs\<lparr>multiplier := m\<rparr>) (activeGames s)\<rparr>"
      note t = tick_running [OF Some g True te_def m_def, of gameId]
      have u: "keysInv s1 \<and> endedBy s s1 = []"
        by (rule game_update_step [OF assms g]) (simp_all add: s1_def)
      have same: "runningIn s1 k' = runningIn s k'" for k'
        using g True by (simp add: s1_def runningIn_def map_of_update)
      have keys: "map fst (activeGames s1) = map fst (activeGames s)"
        using g by (simp add: s1_def keys_update_same)
      have eb: "endedBy s s' = endedBy s1 s'" for s'
        by (simp add: endedBy_def same keys)
      have h1: "gameHistory s1 = gameHistory s" by (simp add: s1_def)
      show ?thesis
      proof (cases "crashPoint gs \<le> m")
        case crash: True
        then have "tick gameId now s = endGame gameId now s1"
          unfolding t by (simp add: s1_def)
        then show ?thesis
          using endGame_step [of s1 gameId now] u by (simp add: eb h1)
      next
        case live: False
        then have tk: "tick gameId now s
            = s1\<lparr>emitted := emitted s @ [game_update gameId (toFixed 2 m) (toFixed 1 te)]\<rparr>"
          unfolding t by (simp add: s1_def)
        have "keysInv (tick gameId now s) \<and> endedBy s (tick gameId now s) = []"
          by (rule game_update_step [OF assms g, of "gs\<lparr>multiplier := m\<rparr>"])
            (simp_all add: tk s1_def)
        then show ?thesis by (simp add: tk h1)
      qed
    qed
  qed
qed

lemma startNewGame_step:
  assumes "keysInv s"
  shows "keysInv (startNewGame gameId hw now s)
    \<and> endedBy s (startNewGame gameId hw now s) = []
    \<and> gameHistory (startNewGame gameId hw now s) = gameHistory s"
proof (cases "running s")
  case True
  then show ?thesis using assms by (simp add: startNewGame_def endedBy_none)
next
  case False
  have "runningIn s k \<Longrightarrow> runningIn (startNewGame gameId hw now s) k" for k
    using False by (simp add: startNewGame_def Let_def runningIn_def map_of_update)
  then have "endedBy s (startNewGame gameId hw now s) = []" by (rule endedBy_none)
  moreover have "keysInv (startNewGame gameId hw now s)"
    using False assms
    by (simp add: startNewGame_def Let_def keysInv_def distinct_update map_of_update)
  moreover have "gameHistory (startNewGame gameId hw now s) = gameHistory s"
    by (simp add: startNewGame_def Let_def)
  ultimately show ?thesis by simp
qed

lemma placeBet_step:
  assumes "keysInv s"
  shows "keysInv (snd (placeBet username gameId amount autoCashout now betId s))
    \<and> endedBy s (snd (placeBet username gameId amount autoCashout now betId s)) = []
    \<and> gameHistory (snd (placeBet username gameId amount autoCashout now betId s))
        = gameHistory s"
proof -
  let ?s' = "snd (placeBet username gameId amount autoCashout now betId s)"
  have h: "gameHistory ?s' = gameHistory s"
    by (simp add: placeBet_def Let_def split: option.split)
  have same: ?thesis if "?s' = s"
    using that assms by (simp add: endedBy_none)
  show ?thesis
  proof (cases "users s username")
    case None
    then show ?thesis by (intro same) (simp add: placeBet_def)
  next
    case u: (Some u)
    show ?thesis
    proof (cases "map_of (activeGames s) gameId")
      case None
      with u show ?thesis by (intro same) (simp add: placeBet_def)
    next
      case g: (Some g)
      show ?thesis
      proof (cases "isRunning g \<and> \<not> balance u < amount \<and> \<not> amount < 10")
        case False
        with u g show ?thesis by (intro same) (auto simp: placeBet_def)
      next
        case True
        have "\<exists>ps. activeGames ?s' = AList.update gameId (g\<lparr>players := ps\<rparr>) (activeGames s)"
          using u g True by (simp add: placeBet_def Let_def) blast
        then obtain ps
          where a: "activeGames ?s' = AList.update gameId (g\<lparr>players := ps\<rparr>) (activeGames s)" ..
        have "keysInv ?s' \<and> endedBy s ?s' = []"
          by (rule game_update_step [OF assms g _ _ a]) simp_all
        then show ?thesis using h by simp
      qed
    qed
  qed
qed

lemma cashOut_step:
  assumes "keysInv s"
  shows "keysInv (snd (cashOut username gameId s))
    \<and> endedBy s (snd (cashOut username gameId s)) = []
    \<and> gameHistory (snd (cashOut username gameId s)) = gameHistory s"
proof -
  let ?s' = "snd (cashOut username gameId s)"
  have h: "gameHistory ?s' = gameHistory s"
    by (simp add: cashOut_def Let_def split: option.split)
  have same: ?thesis if "?s' = s"
    using that assms by (simp add: endedBy_none)
  show ?thesis
  proof (cases "users s username")
    case None
    then show ?thesis by (intro same) (simp add: cashOut_def)
  next
    case u: (Some u)
    show ?thesis
    proof (cases "map_of (activeGames s) gameId")
      case None
      with u show ?thesis by (intro same) (simp add: cashOut_def)
    next
      case g: (Some g)
      show ?thesis
      proof (cases "find (openBetOf username) (players g)")
        case None
        with u g show ?thesis by (intro same) (simp add: cashOut_def)
      next
        case p: (Some p)
        show ?thesis
        proof (cases "isRunning g")
          case False
          with u g show ?thesis by (intro same) (simp add: cashOut_def)
        next
          case True
          have "\<exists>ps. activeGames ?s' = AList.update gameId (g\<lparr>players := ps\<rparr>) (activeGames s)"
            using u g p True by (simp add: cashOut_def Let_def) blast
          then obtain ps
            where a: "activeGames ?s' = AList.update gameId (g\<lparr>players := ps\<rparr>) (activeGames s)" ..
          have "keysInv ?s' \<and> endedBy s ?s' = []"
            by (rule game_update_step [OF assms g _ _ a]) simp_all
          then show ?thesis using h by simp
        qed
      qed
    qed
  qed
qed

lemma same_games_step:
  assumes "keysInv s" and "activeGames s' = activeGames s"
  shows "keysInv s' \<and> endedBy s s' = []"
proof -
  have "runningIn s' k = runningIn s k" for k
    using assms(2) by (simp add: runningIn_def)
  then have "endedBy s s' = []" by (simp add: endedBy_none)
  then show ?thesis using assms by (simp add: keysInv_def)
qed

lemma step_history:
  assumes "keysInv s"
  shows "keysInv (step s a)
    \<and> map g_id (gameHistory (step s a))
        = foldl pushHistory (map g_id (gameHistory s)) (endedBy s (step s a))"
proof (cases a)
  case (StartNewGame gameId hw now)
  then show ?thesis using startNewGame_step [OF assms, of gameId hw now] by simp
next
  case (Tick gameId now)
  then show ?thesis using tick_step [OF assms, of gameId now] by simp
next
  case (Timeout gameId now)
  then show ?thesis
    using endGame_step [OF assms, of gameId now] assms
    by (simp add: timeout_def endedBy_none)
next
  case (Register username pw newId now)
  have "activeGames (snd (register username pw newId now s)) = activeGames s"
    and "gameHistory (snd (register username pw newId now s)) = gameHistory s"
    by (simp_all add: register_def Let_def split: option.split)
  then show ?thesis using Register same_games_step [OF assms] by simp
next
  case (PlaceBet username gameId amount autoCashout now betId)
  then show ?thesis
    using placeBet_step [OF assms, of username gameId amount autoCashout now betId] by simp
next
  case (CashOut username gameId)
  then show ?thesis using cashOut_step [OF assms, of username gameId] by simp
next
  case (UserJoin socketId userData now)
  have "activeGames (user_join socketId userData now s) = activeGames s"
    and "gameHistory (user_join socketId userData now s) = gameHistory s"
    by (simp_all add: user_join_def Let_def split: option.split)
  then show ?thesis using UserJoin same_games_step [OF assms] by simp
qed

lemma run_history:
  assumes "keysInv s" and "map g_id (gameHistory s) = last100 xs"
  shows "map g_id (gameHistory (foldl step s acts)) = last100 (xs @ completed s acts)"
  using assms
proof (induction acts arbitrary: s xs)
  case Nil
  then show ?case by simp
next
  case (Cons a acts)
  from step_history [OF Cons.prems(1), of a]
  have k: "keysInv (step s a)"
    and h: "map g_id (gameHistory (step s a)) = last100 (xs @ endedBy s (step s a))"
    by (simp_all add: Cons.prems(2) foldl_pushHistory)
  from Cons.IH [OF k h] show ?case by simp
qed

lemma keysInv_initial: "keysInv initial"
  by (simp add: keysInv_def initial_def)

text \<open>
  C9: after every run of the server, the history buffer holds the rounds completed most
  recently, oldest first: with \<open>n\<close> rounds completed so far it holds the last \<open>min n 100\<close>
  of them, all of them up to 100 and the newest 100 after that.
\<close>

theorem gameHistory_last_100:
  "map g_id (gameHistory (run acts))
     = drop (length (completed initial acts) - 100) (completed initial acts)
   \<and> length (gameHistory (run acts)) = min (length (completed initial acts)) 100"
proof -
  have "map g_id (gameHistory initial) = last100 []"
    by (simp add: initial_def last100_def)
  from run_history [OF keysInv_initial this, of acts]
  have h: "map g_id (gameHistory (run acts))
     = drop (length (completed initial acts) - 100) (completed initial acts)"
    by (simp add: run_def last100_def)
  have "length (gameHistory (run acts)) = length (map g_id (gameHistory (run acts)))" by simp
  also have "\<dots> = min (length (completed initial acts)) 100"
    unfolding h by simp
  finally show ?thesis using h by simp
qed

lemma completed_append:
  "completed s (as @ bs) = completed s as @ completed (foldl step s as) bs"
  by (induction as arbitrary: s) simp_all

text \<open>One whole round, started while no round is running and ended by its timeout.\<close>

lemma round_completed:
  assumes "keysInv s" and "\<not> running s"
  shows "keysInv (foldl step s [StartNewGame k hw t0, Timeout k t1])
    \<and> \<not> running (foldl step s [StartNewGame k hw t0, Timeout k t1])
    \<and> completed s [StartNewGame k hw t0, Timeout k t1] = [k]"
proof -
  define g where "g = \<lparr>g_id = k, isRunning = True, multiplier = 1,
    crashPoint = fl (generateCrashPoint hw), startTime = t0, players = ([]::player list),
    history = [], winner = None, endTime = None\<rparr>"
  define s1 where "s1 = startNewGame k hw t0 s"
  have s1: "s1 = s\<lparr>gameState := Some k, activeGames := AList.update k g (activeGames s),
      emitted := emitted s @ [game_start k (fl (generateCrashPoint hw)) t0]\<rparr>"
    using assms(2) by (simp add: s1_def startNewGame_def Let_def g_def)
  from startNewGame_step [OF assms(1), of k hw t0]
  have k1: "keysInv s1" and e1: "endedBy s s1 = []" by (simp_all add: s1_def)
  have g1: "map_of (activeGames s1) k = Some g" by (simp add: s1 map_of_update)
  have r: "isRunning g" by (simp add: g_def)
  have run1: "running s1" by (simp add: running_def currentGame_def s1 map_of_update r)
  define s2 where "s2 = endGame k t1 s1"
  have t: "timeout k t1 s1 = s2" using run1 by (simp add: timeout_def s2_def)
  from endGame_completes [OF k1 g1 r, of t1]
  have k2: "keysInv s2" and e2: "endedBy s1 s2 = [k]" by (simp_all add: s2_def)
  have "\<not> running s2"
    unfolding s2_def endGame_running [OF g1 r]
    by (simp add: running_def currentGame_def s1 map_of_update)
  with k2 e1 e2 show ?thesis by (simp add: s1_def [symmetric] t)
qed

lemma rounds_completed:
  assumes "keysInv s" and "\<not> running s"
  shows "completed s (rounds ks) = ks"
  using assms
proof (induction ks arbitrary: s)
  case Nil
  show ?case by (simp add: rounds_def)
next
  case (Cons k ks)
  have r: "rounds (k # ks) = [StartNewGame k draw500 1000, Timeout k 31000] @ rounds ks"
    by (simp add: rounds_def)
  from round_completed [OF Cons.prems, of k draw500 1000 31000]
  have 1: "keysInv (foldl step s [StartNewGame k draw500 1000, Timeout k 31000])"
    and 2: "\<not> running (foldl step s [StartNewGame k draw500 1000, Timeout k 31000])"
    and 3: "completed s [StartNewGame k draw500 1000, Timeout k 31000] = [k]"
    by blast+
  show ?case
    unfolding r completed_append 3 Cons.IH [OF 1 2] by simp
qed

lemma running_initial: "\<not> running initial"
  by (simp add: running_def currentGame_def initial_def)

text \<open>
  105 whole rounds: all 105 are completed, the buffer holds 100 entries, and they are the
  rounds after the first five.
\<close>

theorem gameHistory_last_100_witness:
  "completed initial (rounds names105) = names105
   \<and> length names105 = 105
   \<and> map g_id (gameHistory (run (rounds names105))) = drop 5 names105
   \<and> length (gameHistory (run (rounds names105))) = 100"
proof -
  have c: "completed initial (rounds names105) = names105"
    using keysInv_initial running_initial by (rule rounds_completed)
  have l: "length names105 = 105" by (simp add: names105_def)
  from gameHistory_last_100 [of "rounds names105"] c l show ?thesis by simp
qed

text \<open>
  A run with a bet, a cash-out and a round ended by a tick: the round is completed by the
  last step and is the one entry of the history.
\<close>

lemma history_example:
  "completed initial
     [Register ''ann'' ''pw'' ''u1'' 0, StartNewGame ''g1'' draw200 1000,
      PlaceBet ''ann'' ''g1'' 100 None 1000 ''b1'', Tick ''g1'' 11000,
      CashOut ''ann'' ''g1'', Tick ''g1'' 21000] = [''g1'']"
  "map g_id (gameHistory (run
     [Register ''ann'' ''pw'' ''u1'' 0, StartNewGame ''g1'' draw200 1000,
      PlaceBet ''ann'' ''g1'' 100 None 1000 ''b1'', Tick ''g1'' 11000,
      CashOut ''ann'' ''g1'', Tick ''g1'' 21000])) = [''g1'']"
  by (simp_all add: run_def endedBy_def runningIn_def eval_defs)

section \<open>The account view (C10)\<close>

text \<open>
  C10: for every stored account, the response of \<^verbatim>\<open>GET /api/user/:username\<close> has no
  \<open>password\<close> property, and it is the same whatever the stored password is.
\<close>

theorem getUser_hides_password:
  assumes "users s username = Some u"
  shows "(\<exists>r. getUser username s = Inr r \<and> ''password'' \<notin> fst ` set r)
    \<and> getUser username (s\<lparr>users := (users s)(username \<mapsto> u\<lparr>password := pw\<rparr>)\<rparr>)
        = getUser username s"
  using assms by (simp add: getUser_def restWithout_def userProps_def)

text \<open>
  The registered account, and the same account with another password.
\<close>

theorem getUser_hides_password_witness:
  "getUser ''ann'' afterRegister
     = Inr [(''id'', JStr ''u1''), (''username'', JStr ''ann''), (''balance'', JNum 1000),
            (''gamesPlayed'', JNum 0), (''gamesWon'', JNum 0), (''totalProfit'', JNum 0),
            (''createdAt'', JNum 0)]
   \<and> getUser ''ann'' (afterRegister\<lparr>users := (users afterRegister)(''ann'' \<mapsto>
         \<lparr>u_id = ''u1'', u_username = ''ann'', password = ''secret'', balance = 1000,
          gamesPlayed = 0, gamesWon = 0, totalProfit = 0, createdAt = 0\<rparr>)\<rparr>)
     = getUser ''ann'' afterRegister"
proof -
  define u where "u = \<lparr>u_id = ''u1'', u_username = ''ann'', password = ''pw'', balance = 1000,
    gamesPlayed = 0, gamesWon = 0, totalProfit = 0, createdAt = 0\<rparr>"
  have h: "users afterRegister ''ann'' = Some u"
    by (simp add: eval_defs u_def)
  have v: "getUser ''ann'' afterRegister
     = Inr [(''id'', JStr ''u1''), (''username'', JStr ''ann''), (''balance'', JNum 1000),
            (''gamesPlayed'', JNum 0), (''gamesWon'', JNum 0), (''totalProfit'', JNum 0),
            (''createdAt'', JNum 0)]"
    by (simp add: getUser_def h restWithout_def userProps_def u_def)
  from getUser_hides_password [OF h, of "''secret''"] v show ?thesis
    by (simp add: u_def)
qed

end
